theory Spec2Isabelle
  imports Complex_Main "HOL-Library.Multiset" "HOL-Library.Sublist"
begin

section \<open>Strings and the regular expressions of the year extractor\<close>

text \<open>
  A JavaScript string is a sequence of UTF-16 code units; the regular expressions of
  \<open>extractYearFromQuery\<close> test single code units (\<open>\d\<close>, \<open>\s\<close>, letters compared without
  case), so a string is modelled as the list of its code units.
\<close>

type_synonym jsstring = "nat list"

definition ascii :: "string \<Rightarrow> jsstring" where
  "ascii s = map of_char s"

text \<open>The class \<open>\d\<close>: the ten ASCII digits, with or without the \<open>i\<close> flag.\<close>

definition is_digit :: "nat \<Rightarrow> bool" where
  "is_digit c = (48 \<le> c \<and> c \<le> 57)"

text \<open>
  The class \<open>\s\<close>: the white space and line terminator code units of ECMAScript
  (TAB, LF, VT, FF, CR, SP, NBSP, U+1680, U+2000 to U+200A, U+2028, U+2029, U+202F, U+205F,
  U+3000, U+FEFF).
\<close>

definition is_space :: "nat \<Rightarrow> bool" where
  "is_space c = (c \<in> {9, 10, 11, 12, 13, 32, 160, 5760, 8232, 8233, 8239, 8287, 12288, 65279}
                 \<or> (8192 \<le> c \<and> c \<le> 8202))"

text \<open>
  Matching without case (flag \<open>i\<close>) compares the upper-case forms of two code units. The
  literals of the patterns hold ASCII letters, the space, the apostrophe and U+00E9 only, and
  ECMAScript never folds a code unit from 128 on to one below 128, so the folding is written
  for ASCII letters and for U+00E9 (whose upper case is U+00C9); every other code unit that
  can equal a folded literal is its own upper case.
\<close>

definition to_upper :: "nat \<Rightarrow> nat" where
  "to_upper c = (if 97 \<le> c \<and> c \<le> 122 then c - 32 else if c = 233 then 201 else c)"

definition char_ci :: "nat \<Rightarrow> nat \<Rightarrow> bool" where
  "char_ci p c = (to_upper c = to_upper p)"

text \<open>
  \<open>(\d{4})\<close> at the start of the input: the four digits matched, if there are four.
\<close>

fun digits4 :: "jsstring \<Rightarrow> jsstring option" where
  "digits4 (a # b # c # d # rest) =
     (if is_digit a \<and> is_digit b \<and> is_digit c \<and> is_digit d then Some [a, b, c, d] else None)"
| "digits4 _ = None"

text \<open>
  A literal word at the start of the input, compared without case: the text matched and the
  rest of the input.
\<close>

fun literal_ci :: "jsstring \<Rightarrow> jsstring \<Rightarrow> (jsstring \<times> jsstring) option" where
  "literal_ci [] s = Some ([], s)"
| "literal_ci (p # ps) [] = None"
| "literal_ci (p # ps) (c # cs) =
     (if char_ci p c
      then (case literal_ci ps cs of None \<Rightarrow> None | Some (m, r) \<Rightarrow> Some (c # m, r))
      else None)"

text \<open>
  \<open>\s+(\d{4})\<close> at the start of the input. The quantifier is greedy and backtracks: after
  one white space the matcher first tries to take more, and falls back to the digits.
\<close>

fun spaces_then_year :: "jsstring \<Rightarrow> jsstring option" where
  "spaces_then_year [] = None"
| "spaces_then_year (c # cs) =
     (if is_space c
      then (case spaces_then_year cs of
              Some m \<Rightarrow> Some (c # m)
            | None \<Rightarrow> (case digits4 cs of Some d \<Rightarrow> Some (c # d) | None \<Rightarrow> None))
      else None)"

text \<open>
  \<open>(?:w1|w2|...)\s+(\d{4})\<close> at the start of the input: the alternatives are tried from
  left to right, and one is dropped when the rest of the pattern fails after it.
\<close>

fun cue_then_year :: "jsstring list \<Rightarrow> jsstring \<Rightarrow> jsstring option" where
  "cue_then_year [] s = None"
| "cue_then_year (w # ws) s =
     (case literal_ci w s of
        None \<Rightarrow> cue_then_year ws s
      | Some (m, r) \<Rightarrow>
          (case spaces_then_year r of
             None \<Rightarrow> cue_then_year ws s
           | Some t \<Rightarrow> Some (m @ t)))"

text \<open>
  The first match of a pattern in a string: the match at the leftmost position where the
  pattern matches. For a pattern with the flag \<open>g\<close>, \<open>query.match(pattern)\<close> is \<open>null\<close> when
  there is none, and otherwise an array whose element 0 is this match; without the flag,
  element 0 of the result is this match too.
\<close>

fun first_match :: "(jsstring \<Rightarrow> jsstring option) \<Rightarrow> jsstring \<Rightarrow> jsstring option" where
  "first_match p [] = p []"
| "first_match p (c # cs) = (case p (c # cs) of Some m \<Rightarrow> Some m | None \<Rightarrow> first_match p cs)"

text \<open>\<open>parseInt\<close> on a string of decimal digits.\<close>

definition parseInt :: "jsstring \<Rightarrow> int" where
  "parseInt ds = foldl (\<lambda>a d. 10 * a + (int d - 48)) 0 ds"

section \<open>extractYearFromQuery\<close>

definition cue_words :: "jsstring list" where
  "cue_words = [ascii ''en'', ascii ''de'', ascii ''du'', ascii ''pour l'' @ [39], ascii ''pour'',
                ascii ''ann'' @ [233] @ ascii ''e'', ascii ''exercice'']"

definition article_words :: "jsstring list" where
  "article_words = [ascii ''l'' @ [39], ascii ''le'', ascii ''la'']"

definition yearPatterns :: "(jsstring \<Rightarrow> jsstring option) list" where
  "yearPatterns = [digits4, cue_then_year cue_words, cue_then_year article_words]"

text \<open>
  The body of the loop for one pattern: the first match of the pattern in the query, the
  first four digits inside that match, their value, and the range check. \<open>None\<close> is "go on
  with the next pattern".
\<close>

definition pattern_year :: "(jsstring \<Rightarrow> jsstring option) \<Rightarrow> jsstring \<Rightarrow> int option" where
  "pattern_year pattern query =
     (case first_match pattern query of
        None \<Rightarrow> None
      | Some m0 \<Rightarrow>
          (case first_match digits4 m0 of
             None \<Rightarrow> None
           | Some ym \<Rightarrow>
               (let year = parseInt ym
                in if year \<ge> 1900 \<and> year \<le> 2100 then Some year else None)))"

fun try_patterns :: "(jsstring \<Rightarrow> jsstring option) list \<Rightarrow> jsstring \<Rightarrow> int option" where
  "try_patterns [] query = None"
| "try_patterns (pattern # rest) query =
     (case pattern_year pattern query of Some year \<Rightarrow> Some year | None \<Rightarrow> try_patterns rest query)"

definition extractYearFromQuery :: "jsstring \<Rightarrow> int option" where
  "extractYearFromQuery query = try_patterns yearPatterns query"

section \<open>The result of the year extractor, described on the positions of the query\<close>

text \<open>
  A second description of what \<open>extractYearFromQuery\<close> returns, written from what is
  claimed of it and not from its code: it speaks of the positions of the query where four
  digits stand, or where a cue word stands followed by white space and four digits, and of
  the leftmost such position. The claim about the priority of the patterns compares the
  function with it.

  \<open>four_digits s\<close>: the text \<open>s\<close> begins with four digits, whatever follows them.
\<close>

definition four_digits :: "jsstring \<Rightarrow> bool" where
  "four_digits s = (4 \<le> length s \<and> list_all is_digit (take 4 s))"

text \<open>The number of white space code units \<open>s\<close> begins with.\<close>

definition space_run :: "jsstring \<Rightarrow> nat" where
  "space_run s = length (takeWhile is_space s)"

text \<open>
  \<open>starts_with_cue w s\<close>: the text \<open>s\<close> begins with the word \<open>w\<close>, letters compared without
  case, then at least one white space, then, after all the white space, four digits;
  \<open>cue_digits w s\<close> are those four digits.
\<close>

definition starts_with_cue :: "jsstring \<Rightarrow> jsstring \<Rightarrow> bool" where
  "starts_with_cue w s =
     (length w \<le> length s \<and> list_all2 char_ci w (take (length w) s) \<and>
      0 < space_run (drop (length w) s) \<and>
      four_digits (drop (space_run (drop (length w) s)) (drop (length w) s)))"

definition cue_digits :: "jsstring \<Rightarrow> jsstring \<Rightarrow> jsstring" where
  "cue_digits w s = take 4 (drop (space_run (drop (length w) s)) (drop (length w) s))"

text \<open>The least position of \<open>q\<close> from which the rest of \<open>q\<close> satisfies \<open>P\<close>, if there is one.\<close>

definition leftmost :: "(jsstring \<Rightarrow> bool) \<Rightarrow> jsstring \<Rightarrow> nat option" where
  "leftmost P q = find (\<lambda>i. P (drop i q)) [0..<length q]"

text \<open>The value of a string of digits when it lies between 1900 and 2100.\<close>

definition checked_year :: "jsstring \<Rightarrow> int option" where
  "checked_year ds = (if 1900 \<le> parseInt ds \<and> parseInt ds \<le> 2100 then Some (parseInt ds) else None)"

text \<open>
  \<open>bare_year\<close>: the four digits at the leftmost position where four digits stand, when their
  value is in range. \<open>cue_year ws\<close>: at the leftmost position where some word of \<open>ws\<close>
  stands followed by white space and four digits, the digits that follow the first such word
  of \<open>ws\<close>, when their value is in range. \<open>year_by_priority\<close>: the first of the bare year,
  the year after a cue word and the year after an article that exists.
\<close>

definition bare_year :: "jsstring \<Rightarrow> int option" where
  "bare_year q =
     (case leftmost four_digits q of
        None \<Rightarrow> None
      | Some i \<Rightarrow> checked_year (take 4 (drop i q)))"

definition cue_year :: "jsstring list \<Rightarrow> jsstring \<Rightarrow> int option" where
  "cue_year ws q =
     (case leftmost (\<lambda>s. list_ex (\<lambda>w. starts_with_cue w s) ws) q of
        None \<Rightarrow> None
      | Some j \<Rightarrow>
          (case find (\<lambda>w. starts_with_cue w (drop j q)) ws of
             None \<Rightarrow> None
           | Some w \<Rightarrow> checked_year (cue_digits w (drop j q))))"

definition year_by_priority :: "jsstring \<Rightarrow> int option" where
  "year_by_priority q =
     (case bare_year q of
        Some y \<Rightarrow> Some y
      | None \<Rightarrow>
          (case cue_year cue_words q of
             Some y \<Rightarrow> Some y
           | None \<Rightarrow> cue_year article_words q))"

section \<open>Numbers, chunks, options and metadata\<close>

text \<open>
  Scores are JavaScript numbers. The model leaves their type \<open>'n\<close> open and uses on it only
  the operations the source applies (\<open>1\<close>, \<open>+\<close>, \<open>-\<close>, \<open>*\<close>, comparison with \<open>0\<close>), with no law
  assumed about them, so that what is proved does not depend on how the arithmetic rounds.
  What the source takes from the language and cannot be written with these operations is
  a parameter: \<open>pow_0_8 d\<close> is the value of \<open>Math.pow(0.8, d)\<close> and \<open>lit_0_3\<close> the value
  of the literal \<open>0.3\<close>. Years, tolerances and counts are integers, on which the
  arithmetic of the source is exact.

  Records keep the field names of the source. Where a parameter of the source bears the
  name of a field (\<open>chunks\<close>, \<open>queryYear\<close>, \<open>temporalWeight\<close>, \<open>options\<close>), the parameter is
  written \<open>cs\<close>, \<open>qy\<close>, \<open>w\<close>, \<open>opts\<close>.
\<close>

record 'n numbers =
  pow_0_8 :: "int \<Rightarrow> 'n"
  lit_0_3 :: 'n

text \<open>
  A chunk. \<open>score\<close> is always present; the other fields may be absent (\<open>undefined\<close> in the
  source, \<open>None\<close> here).
\<close>

record 'n chunk =
  "text" :: jsstring
  score :: 'n
  filename :: "jsstring option"
  page :: "int option"
  year :: "int option"
  temporalScore :: "'n option"
  finalScore :: "'n option"
  originalScore :: "'n option"

text \<open>
  The \<open>options\<close> argument of \<open>performHybridSearch\<close>: an absent field takes its default in
  the destructuring (\<open>0.3\<close>, \<open>2\<close>, \<open>true\<close>, \<open>true\<close>).
\<close>

record 'n options =
  temporalWeight :: "'n option"
  yearTolerance :: "int option"
  enableFiltering :: "bool option"
  enableWeighting :: "bool option"

record searchMetadata =
  queryYear :: "int option"
  temporalFilterApplied :: bool
  temporalWeightingApplied :: bool
  originalCount :: nat
  filteredCount :: nat

record 'n searchResult =
  chunks :: "'n chunk list"
  metadata :: searchMetadata

text \<open>
  The truth value of an optional number in a condition (\<open>!chunk.year\<close>,
  \<open>queryYear && ...\<close>): \<open>undefined\<close>, \<open>null\<close> and \<open>0\<close> are false.
\<close>

definition truthy :: "int option \<Rightarrow> bool" where
  "truthy v = (case v of None \<Rightarrow> False | Some n \<Rightarrow> n \<noteq> 0)"

section \<open>calculateTemporalProximity, filterByYear, applyTemporalWeighting\<close>

definition calculateTemporalProximity :: "'n numbers \<Rightarrow> int \<Rightarrow> int \<Rightarrow> 'n" where
  "calculateTemporalProximity nums qy documentYear =
     (let yearDiff = \<bar>qy - documentYear\<bar> in pow_0_8 nums yearDiff)"

text \<open>
  \<open>filterByYear\<close> (the source's default for \<open>tolerance\<close> is 2; \<open>performHybridSearch\<close>
  always passes it).
\<close>

definition keep_chunk :: "int \<Rightarrow> int \<Rightarrow> 'n chunk \<Rightarrow> bool" where
  "keep_chunk targetYear tolerance c =
     (case year c of
        None \<Rightarrow> True
      | Some y \<Rightarrow>
          if \<not> truthy (Some y) then True
          else (let yearDiff = \<bar>y - targetYear\<bar> in yearDiff \<le> tolerance))"

definition filterByYear :: "'n chunk list \<Rightarrow> int \<Rightarrow> int \<Rightarrow> 'n chunk list" where
  "filterByYear cs targetYear tolerance = filter (keep_chunk targetYear tolerance) cs"

definition weight_chunk :: "'n::{one,plus,minus,times} numbers \<Rightarrow> int \<Rightarrow> 'n \<Rightarrow> 'n chunk \<Rightarrow> 'n chunk" where
  "weight_chunk nums qy w c =
     (case year c of
        None \<Rightarrow> c\<lparr>finalScore := Some (score c)\<rparr>
      | Some y \<Rightarrow>
          if \<not> truthy (Some y) then c\<lparr>finalScore := Some (score c)\<rparr>
          else
            (let ts = calculateTemporalProximity nums qy y;
                 fs = (1 - w) * score c + w * ts
             in c\<lparr>temporalScore := Some ts, finalScore := Some fs, originalScore := Some (score c)\<rparr>))"

definition applyTemporalWeighting ::
  "'n::{one,plus,minus,times} numbers \<Rightarrow> 'n chunk list \<Rightarrow> int \<Rightarrow> 'n \<Rightarrow> 'n chunk list" where
  "applyTemporalWeighting nums cs qy w = map (weight_chunk nums qy w) cs"

section \<open>Sorting\<close>

text \<open>
  The comparison function \<open>(a, b) => b[sortKey] - a[sortKey]\<close>. A field that is absent
  makes the difference \<open>NaN\<close>, here \<open>None\<close>.
\<close>

datatype sortKey = KeyScore | KeyFinalScore

definition key_of :: "sortKey \<Rightarrow> 'n chunk \<Rightarrow> 'n option" where
  "key_of k c = (case k of KeyScore \<Rightarrow> Some (score c) | KeyFinalScore \<Rightarrow> finalScore c)"

definition compare_desc :: "sortKey \<Rightarrow> 'n::minus chunk \<Rightarrow> 'n chunk \<Rightarrow> 'n option" where
  "compare_desc k a b =
     (case key_of k b of
        None \<Rightarrow> None
      | Some kb \<Rightarrow> (case key_of k a of None \<Rightarrow> None | Some ka \<Rightarrow> Some (kb - ka)))"

text \<open>
  \<open>Array.prototype.sort\<close> with a comparison function is stable: \<open>a\<close> is moved behind \<open>b\<close>
  only when the comparison of \<open>a\<close> with \<open>b\<close> is positive (\<open>NaN\<close> counts as \<open>0\<close>). It is
  modelled as the stable insertion sort on that test.
\<close>

definition goes_after :: "('a \<Rightarrow> 'a \<Rightarrow> 'n::{zero,ord} option) \<Rightarrow> 'a \<Rightarrow> 'a \<Rightarrow> bool" where
  "goes_after cmp a b = (case cmp a b of None \<Rightarrow> False | Some v \<Rightarrow> 0 < v)"

fun insert_sorted :: "('a \<Rightarrow> 'a \<Rightarrow> 'n::{zero,ord} option) \<Rightarrow> 'a \<Rightarrow> 'a list \<Rightarrow> 'a list" where
  "insert_sorted cmp x [] = [x]"
| "insert_sorted cmp x (y # ys) =
     (if goes_after cmp x y then y # insert_sorted cmp x ys else x # y # ys)"

definition array_sort :: "('a \<Rightarrow> 'a \<Rightarrow> 'n::{zero,ord} option) \<Rightarrow> 'a list \<Rightarrow> 'a list" where
  "array_sort cmp xs = foldr (insert_sorted cmp) xs []"

section \<open>performHybridSearch\<close>

text \<open>The values the destructuring of \<open>options\<close> binds.\<close>

definition temporalWeight_of :: "'n numbers \<Rightarrow> 'n options \<Rightarrow> 'n" where
  "temporalWeight_of nums opts = (case temporalWeight opts of None \<Rightarrow> lit_0_3 nums | Some w \<Rightarrow> w)"

definition yearTolerance_of :: "'n options \<Rightarrow> int" where
  "yearTolerance_of opts = (case yearTolerance opts of None \<Rightarrow> 2 | Some t \<Rightarrow> t)"

definition enableFiltering_of :: "'n options \<Rightarrow> bool" where
  "enableFiltering_of opts = (case enableFiltering opts of None \<Rightarrow> True | Some b \<Rightarrow> b)"

definition enableWeighting_of :: "'n options \<Rightarrow> bool" where
  "enableWeighting_of opts = (case enableWeighting opts of None \<Rightarrow> True | Some b \<Rightarrow> b)"

text \<open>
  The working set after step 1 (filtering, when a year is found and filtering is enabled)
  and after step 2 (weighting, when a year is found and weighting is enabled).
\<close>

definition after_filtering :: "'n chunk list \<Rightarrow> jsstring \<Rightarrow> 'n options \<Rightarrow> 'n chunk list" where
  "after_filtering cs query opts =
     (case extractYearFromQuery query of
        None \<Rightarrow> cs
      | Some qy \<Rightarrow>
          if truthy (Some qy) \<and> enableFiltering_of opts
          then filterByYear cs qy (yearTolerance_of opts)
          else cs)"

definition after_weighting ::
  "'n::{one,plus,minus,times} numbers \<Rightarrow> 'n chunk list \<Rightarrow> jsstring \<Rightarrow> 'n options \<Rightarrow> 'n chunk list" where
  "after_weighting nums cs query opts =
     (case extractYearFromQuery query of
        None \<Rightarrow> after_filtering cs query opts
      | Some qy \<Rightarrow>
          if truthy (Some qy) \<and> enableWeighting_of opts
          then applyTemporalWeighting nums (after_filtering cs query opts) qy (temporalWeight_of nums opts)
          else after_filtering cs query opts)"

definition performHybridSearch ::
  "'n::{one,plus,minus,times,zero,ord} numbers \<Rightarrow> 'n chunk list \<Rightarrow> jsstring \<Rightarrow> 'n options
     \<Rightarrow> 'n searchResult" where
  "performHybridSearch nums cs query opts =
     (let qy = extractYearFromQuery query;
          md0 = \<lparr>queryYear = qy, temporalFilterApplied = False, temporalWeightingApplied = False,
                 originalCount = length cs, filteredCount = length cs\<rparr>;
          md1 = (if truthy qy \<and> enableFiltering_of opts
                 then md0\<lparr>temporalFilterApplied := True,
                          filteredCount := length (after_filtering cs query opts)\<rparr>
                 else md0);
          md2 = (if truthy qy \<and> enableWeighting_of opts
                 then md1\<lparr>temporalWeightingApplied := True\<rparr>
                 else md1);
          sk = (if truthy qy \<and> enableWeighting_of opts then KeyFinalScore else KeyScore)
      in \<lparr>chunks = array_sort (compare_desc sk) (after_weighting nums cs query opts),
          metadata = md2\<rparr>)"

section \<open>Example data\<close>

text \<open>
  Concrete inputs for the examples below. \<open>example_numbers\<close> reads the two numeric parameters
  in exact arithmetic on the reals.
\<close>

definition example_numbers :: "real numbers" where
  "example_numbers = \<lparr>pow_0_8 = (\<lambda>d. (8 / 10) ^ nat d), lit_0_3 = 3 / 10\<rparr>"

definition chunk_2025 :: "real chunk" where
  "chunk_2025 = \<lparr>text = ascii ''budget'', score = 78 / 100, filename = Some (ascii ''cr.pdf''),
     page = Some 3, year = Some 2025, temporalScore = None, finalScore = None, originalScore = None\<rparr>"

definition chunk_2020 :: "real chunk" where
  "chunk_2020 = \<lparr>text = ascii ''voirie'', score = 82 / 100, filename = Some (ascii ''pv.pdf''),
     page = Some 1, year = Some 2020, temporalScore = None, finalScore = None, originalScore = None\<rparr>"

definition chunk_undated :: "real chunk" where
  "chunk_undated = \<lparr>text = ascii ''archive'', score = 78 / 100, filename = None,
     page = None, year = None, temporalScore = None, finalScore = None, originalScore = None\<rparr>"

definition chunk_year0 :: "real chunk" where
  "chunk_year0 = \<lparr>text = ascii ''ancien'', score = 1 / 2, filename = None,
     page = None, year = Some 0, temporalScore = None, finalScore = None, originalScore = None\<rparr>"

definition default_options :: "real options" where
  "default_options = \<lparr>temporalWeight = None, yearTolerance = None, enableFiltering = None,
     enableWeighting = None\<rparr>"

definition query_2025 :: jsstring where
  "query_2025 = ascii ''Quels sont les projets pour 2025?''"

definition query_no_year :: jsstring where
  "query_no_year = ascii ''Projets futurs''"

section \<open>The same functions on a store of records and arrays\<close>

text \<open>
  In the source a chunk is an object and a chunk list an array, both reached through
  references, and \<open>sort\<close> reorders its array in place. To state what the functions do to
  the objects they are given, they are modelled a second time on an explicit store: the
  chunk record at reference \<open>r\<close> is \<open>objects s ! r\<close>, the array at reference \<open>a\<close> is the
  list \<open>arrays s ! a\<close> of references to records, and a new object or array takes the next
  free reference. \<open>{...chunk, f: v}\<close> and \<open>filter\<close>, \<open>map\<close>, \<open>[...chunks]\<close> create a new
  object or array; nothing in the source assigns to a field of a chunk.
\<close>

type_synonym ref = nat

record 'n store =
  objects :: "'n chunk list"
  arrays :: "ref list list"

definition new_object :: "'n chunk \<Rightarrow> 'n store \<Rightarrow> ref \<times> 'n store" where
  "new_object c s = (length (objects s), s\<lparr>objects := objects s @ [c]\<rparr>)"

definition new_array :: "ref list \<Rightarrow> 'n store \<Rightarrow> ref \<times> 'n store" where
  "new_array rs s = (length (arrays s), s\<lparr>arrays := arrays s @ [rs]\<rparr>)"

text \<open>The records an array holds, in its order.\<close>

definition array_values :: "'n store \<Rightarrow> ref \<Rightarrow> 'n chunk list" where
  "array_values s a = map (\<lambda>r. objects s ! r) (arrays s ! a)"

text \<open>An array of the store all of whose elements are records of the store.\<close>

definition valid_array :: "'n store \<Rightarrow> ref \<Rightarrow> bool" where
  "valid_array s a = (a < length (arrays s) \<and> list_all (\<lambda>r. r < length (objects s)) (arrays s ! a))"

text \<open>\<open>chunks.filter(...)\<close>: a new array of the references that pass the test.\<close>

definition filterByYear_st :: "ref \<Rightarrow> int \<Rightarrow> int \<Rightarrow> 'n store \<Rightarrow> ref \<times> 'n store" where
  "filterByYear_st a targetYear tolerance s =
     new_array (filter (\<lambda>r. keep_chunk targetYear tolerance (objects s ! r)) (arrays s ! a)) s"

text \<open>
  \<open>chunks.map(...)\<close>: the callback creates one new object for each element, from left to
  right, and the results go into a new array.
\<close>

fun weight_all ::
  "'n::{one,plus,minus,times} numbers \<Rightarrow> int \<Rightarrow> 'n \<Rightarrow> ref list \<Rightarrow> 'n store \<Rightarrow> ref list \<times> 'n store" where
  "weight_all nums qy w [] s = ([], s)"
| "weight_all nums qy w (r # rs) s =
     (let (r', s1) = new_object (weight_chunk nums qy w (objects s ! r)) s;
          (rs', s2) = weight_all nums qy w rs s1
      in (r' # rs', s2))"

definition applyTemporalWeighting_st ::
  "'n::{one,plus,minus,times} numbers \<Rightarrow> ref \<Rightarrow> int \<Rightarrow> 'n \<Rightarrow> 'n store \<Rightarrow> ref \<times> 'n store" where
  "applyTemporalWeighting_st nums a qy w s =
     (let (rs', s1) = weight_all nums qy w (arrays s ! a) s in new_array rs' s1)"

text \<open>\<open>array.sort(compare)\<close>: the array at \<open>a\<close> is overwritten with its sorted contents.\<close>

definition sort_in_place ::
  "('n chunk \<Rightarrow> 'n chunk \<Rightarrow> 'n::{zero,ord} option) \<Rightarrow> ref \<Rightarrow> 'n store \<Rightarrow> 'n store" where
  "sort_in_place cmp a s =
     s\<lparr>arrays := (arrays s)[a := array_sort (\<lambda>x y. cmp (objects s ! x) (objects s ! y)) (arrays s ! a)]\<rparr>"

text \<open>
  \<open>performHybridSearch\<close>, statement by statement: the result is the reference of the array
  returned, the metadata, and the store at the end.
\<close>

definition performHybridSearch_st ::
  "'n::{one,plus,minus,times,zero,ord} numbers \<Rightarrow> ref \<Rightarrow> jsstring \<Rightarrow> 'n options \<Rightarrow> 'n store
     \<Rightarrow> ref \<times> searchMetadata \<times> 'n store" where
  "performHybridSearch_st nums a query opts s =
     (let qy = extractYearFromQuery query;
          (p0, s0) = new_array (arrays s ! a) s;
          md0 = \<lparr>queryYear = qy, temporalFilterApplied = False, temporalWeightingApplied = False,
                 originalCount = length (arrays s ! a), filteredCount = length (arrays s ! a)\<rparr>;
          (p1, s1, md1) =
            (case qy of
               None \<Rightarrow> (p0, s0, md0)
             | Some y \<Rightarrow>
                 if truthy (Some y) \<and> enableFiltering_of opts
                 then (let (p, s') = filterByYear_st p0 y (yearTolerance_of opts) s0
                       in (p, s', md0\<lparr>temporalFilterApplied := True,
                                        filteredCount := length (arrays s' ! p)\<rparr>))
                 else (p0, s0, md0));
          (p2, s2, md2) =
            (case qy of
               None \<Rightarrow> (p1, s1, md1)
             | Some y \<Rightarrow>
                 if truthy (Some y) \<and> enableWeighting_of opts
                 then (let (p, s') = applyTemporalWeighting_st nums p1 y (temporalWeight_of nums opts) s1
                       in (p, s', md1\<lparr>temporalWeightingApplied := True\<rparr>))
                 else (p1, s1, md1));
          sk = (if truthy qy \<and> enableWeighting_of opts then KeyFinalScore else KeyScore);
          s3 = sort_in_place (compare_desc sk) p2 s2
      in (p2, md2, s3))"

definition result_array :: "ref \<times> searchMetadata \<times> 'n store \<Rightarrow> ref" where
  "result_array res = fst res"

definition result_metadata :: "ref \<times> searchMetadata \<times> 'n store \<Rightarrow> searchMetadata" where
  "result_metadata res = fst (snd res)"

definition result_store :: "ref \<times> searchMetadata \<times> 'n store \<Rightarrow> 'n store" where
  "result_store res = snd (snd res)"

text \<open>
  \<open>added_fields_only c c'\<close>: the record \<open>c'\<close> is \<open>c\<close> except, at most, in the three fields
  the weighting adds.
\<close>

definition added_fields_only :: "'n chunk \<Rightarrow> 'n chunk \<Rightarrow> bool" where
  "added_fields_only c c' =
     (c' = c\<lparr>temporalScore := temporalScore c', finalScore := finalScore c',
             originalScore := originalScore c'\<rparr>)"

definition example_store :: "real store" where
  "example_store = \<lparr>objects = [chunk_2025, chunk_2020, chunk_undated], arrays = [[0, 1, 2]]\<rparr>"

section \<open>Auxiliary facts\<close>

lemma pattern_year_range:
  "pattern_year p q = Some y \<Longrightarrow> 1900 \<le> y \<and> y \<le> 2100"
  by (auto simp: pattern_year_def Let_def split: option.splits if_splits)

lemma try_patterns_range:
  "try_patterns ps q = Some y \<Longrightarrow> 1900 \<le> y \<and> y \<le> 2100"
  by (induction ps) (auto split: option.splits dest: pattern_year_range)

lemma extractYear_range:
  "extractYearFromQuery q = Some y \<Longrightarrow> 1900 \<le> y \<and> y \<le> 2100"
  unfolding extractYearFromQuery_def by (rule try_patterns_range)

lemma truthy_extractYear:
  "truthy (extractYearFromQuery q) = (extractYearFromQuery q \<noteq> None)"
  by (cases "extractYearFromQuery q") (auto simp: truthy_def dest: extractYear_range)

lemma mset_insert_sorted: "mset (insert_sorted cmp x ys) = add_mset x (mset ys)"
  by (induction ys) auto

lemma mset_array_sort: "mset (array_sort cmp xs) = mset xs"
  unfolding array_sort_def by (induction xs) (auto simp: mset_insert_sorted)

lemma length_array_sort: "length (array_sort cmp xs) = length xs"
  using mset_array_sort [of cmp xs] by (metis size_mset)

lemma set_array_sort: "set (array_sort cmp xs) = set xs"
  using mset_array_sort [of cmp xs] by (metis set_mset_mset)

lemma set_insert_sorted: "set (insert_sorted cmp x ys) = insert x (set ys)"
  using mset_insert_sorted [of cmp x ys] by (metis set_mset_mset set_mset_add_mset_insert)

lemma filter_insert_sorted:
  fixes f :: "'a \<Rightarrow> 'k::linorder"
  assumes "\<And>b. b \<in> set ys \<Longrightarrow> goes_after cmp x b = (f x < f b)"
  shows "filter (\<lambda>c. f c = v) (insert_sorted cmp x ys) =
         (if f x = v then x # filter (\<lambda>c. f c = v) ys else filter (\<lambda>c. f c = v) ys)"
  using assms by (induction ys) auto

lemma sorted_insert_sorted:
  fixes f :: "'a \<Rightarrow> 'k::linorder"
  assumes "\<And>b. b \<in> set ys \<Longrightarrow> goes_after cmp x b = (f x < f b)"
    and "sorted_wrt (\<lambda>a b. f b \<le> f a) ys"
  shows "sorted_wrt (\<lambda>a b. f b \<le> f a) (insert_sorted cmp x ys)"
  using assms
proof (induction ys)
  case Nil
  then show ?case by simp
next
  case (Cons y ys)
  show ?case
  proof (cases "goes_after cmp x y")
    case True
    then have "f x < f y" using Cons.prems(1) by simp
    moreover have "sorted_wrt (\<lambda>a b. f b \<le> f a) (insert_sorted cmp x ys)"
      using Cons by simp
    ultimately show ?thesis using True Cons.prems(2)
      by (auto simp: set_insert_sorted)
  next
    case False
    then have "f y \<le> f x" using Cons.prems(1) by (simp add: not_less)
    then show ?thesis using False Cons.prems(2) by auto
  qed
qed

lemma array_sort_sorted:
  fixes f :: "'a \<Rightarrow> 'k::linorder"
  assumes "\<And>a b. a \<in> set xs \<Longrightarrow> b \<in> set xs \<Longrightarrow> goes_after cmp a b = (f a < f b)"
  shows "sorted_wrt (\<lambda>a b. f b \<le> f a) (array_sort cmp xs)"
  using assms unfolding array_sort_def
proof (induction xs)
  case Nil
  then show ?case by simp
next
  case (Cons x xs)
  have ih: "sorted_wrt (\<lambda>a b. f b \<le> f a) (foldr (insert_sorted cmp) xs [])"
    using Cons by simp
  have "\<And>b. b \<in> set (foldr (insert_sorted cmp) xs []) \<Longrightarrow> goes_after cmp x b = (f x < f b)"
    using Cons.prems set_array_sort [of cmp xs] unfolding array_sort_def by auto
  then show ?case using ih by (simp add: sorted_insert_sorted)
qed

lemma array_sort_stable:
  fixes f :: "'a \<Rightarrow> 'k::linorder"
  assumes "\<And>a b. a \<in> set xs \<Longrightarrow> b \<in> set xs \<Longrightarrow> goes_after cmp a b = (f a < f b)"
  shows "filter (\<lambda>c. f c = v) (array_sort cmp xs) = filter (\<lambda>c. f c = v) xs"
  using assms unfolding array_sort_def
proof (induction xs)
  case Nil
  then show ?case by simp
next
  case (Cons x xs)
  have ih: "filter (\<lambda>c. f c = v) (foldr (insert_sorted cmp) xs []) = filter (\<lambda>c. f c = v) xs"
    using Cons by simp
  have "\<And>b. b \<in> set (foldr (insert_sorted cmp) xs []) \<Longrightarrow> goes_after cmp x b = (f x < f b)"
    using Cons.prems set_array_sort [of cmp xs] unfolding array_sort_def by auto
  then show ?case using ih by (simp add: filter_insert_sorted)
qed

lemma stable_sorted_unique:
  fixes f :: "'a \<Rightarrow> 'k::linorder"
  assumes "sorted_wrt (\<lambda>a b. f b \<le> f a) xs" "sorted_wrt (\<lambda>a b. f b \<le> f a) ys"
    and "\<And>v. filter (\<lambda>c. f c = v) xs = filter (\<lambda>c. f c = v) ys"
  shows "xs = ys"
  using assms
proof (induction xs arbitrary: ys)
  case Nil
  show ?case
  proof (cases ys)
    case Nil
    then show ?thesis by simp
  next
    case (Cons y ys')
    with Nil.prems(3) [of "f y"] show ?thesis by simp
  qed
next
  case (Cons x xs)
  have "x \<in> set (filter (\<lambda>c. f c = f x) ys)"
    unfolding Cons.prems(3) [of "f x", symmetric] by simp
  then have xin: "x \<in> set ys" by simp
  then obtain y ys' where ys: "ys = y # ys'" by (cases ys) auto
  have "y \<in> set (filter (\<lambda>c. f c = f y) (x # xs))"
    unfolding Cons.prems(3) [of "f y"] ys by simp
  then have yin: "y \<in> set (x # xs)" by (simp del: filter.simps)
  have "f x \<le> f y" using xin Cons.prems(2) ys by auto
  moreover have "f y \<le> f x" using yin Cons.prems(1) by auto
  ultimately have feq: "f x = f y" by simp
  with Cons.prems(3) [of "f x"] ys have xy: "x = y" by simp
  have tl: "\<And>v. filter (\<lambda>c. f c = v) xs = filter (\<lambda>c. f c = v) ys'"
  proof -
    fix v
    from Cons.prems(3) [of v] ys xy show "filter (\<lambda>c. f c = v) xs = filter (\<lambda>c. f c = v) ys'"
      by (cases "f y = v") auto
  qed
  have "xs = ys'"
    using Cons.IH [of ys'] Cons.prems(1,2) ys tl by simp
  with xy ys show ?case by simp
qed

lemmas ex_defs = example_numbers_def chunk_2025_def chunk_2020_def chunk_undated_def chunk_year0_def
  default_options_def

lemmas extract_defs = extractYearFromQuery_def yearPatterns_def pattern_year_def ascii_def
  is_digit_def parseInt_def cue_words_def article_words_def char_ci_def to_upper_def is_space_def

lemmas search_defs = performHybridSearch_def after_weighting_def after_filtering_def
  filterByYear_def keep_chunk_def applyTemporalWeighting_def weight_chunk_def
  calculateTemporalProximity_def truthy_def temporalWeight_of_def yearTolerance_of_def
  enableFiltering_of_def enableWeighting_of_def array_sort_def goes_after_def compare_desc_def
  key_of_def Let_def

lemma q2025: "extractYearFromQuery query_2025 = Some 2025"
  by (simp add: query_2025_def extract_defs)

lemma qnone: "extractYearFromQuery query_no_year = None"
  by (simp add: query_no_year_def extract_defs)

lemma length_after_filtering: "length (after_filtering cs q opts) \<le> length cs"
  by (auto simp: after_filtering_def filterByYear_def split: option.splits)

lemma length_after_weighting:
  "length (after_weighting nums cs q opts) = length (after_filtering cs q opts)"
  by (auto simp: after_weighting_def applyTemporalWeighting_def split: option.splits)

lemma after_filtering_unfiltered:
  "\<not> enableFiltering_of opts \<or> extractYearFromQuery q = None \<Longrightarrow> after_filtering cs q opts = cs"
  by (auto simp: after_filtering_def split: option.splits)


lemma weighted_has_finalScore:
  "c \<in> set (applyTemporalWeighting nums cs qy w) \<Longrightarrow> finalScore c \<noteq> None"
  by (auto simp: applyTemporalWeighting_def weight_chunk_def Let_def split: option.splits if_splits)

lemma weighting_applied_iff:
  "temporalWeightingApplied (metadata (performHybridSearch nums cs q opts))
     = (truthy (extractYearFromQuery q) \<and> enableWeighting_of opts)"
  by (simp add: performHybridSearch_def Let_def)

lemma chunks_performHybridSearch:
  "chunks (performHybridSearch nums cs q opts)
     = array_sort (compare_desc (if temporalWeightingApplied (metadata (performHybridSearch nums cs q opts))
                                 then KeyFinalScore else KeyScore))
         (after_weighting nums cs q opts)"
  by (simp add: performHybridSearch_def Let_def)

lemma after_weighting_has_finalScore:
  assumes "temporalWeightingApplied (metadata (performHybridSearch nums cs q opts))"
    and "c \<in> set (after_weighting nums cs q opts)"
  shows "finalScore c \<noteq> None"
  using assms unfolding weighting_applied_iff
  by (auto simp: after_weighting_def truthy_def split: option.splits dest: weighted_has_finalScore)

text \<open>The number that the chosen key holds for a chunk of the working set.\<close>

lemma ranking_key:
  fixes nums :: "'n::{linorder,one,plus,minus,times,zero} numbers"
    and cs :: "'n chunk list" and q :: jsstring and opts :: "'n options"
  assumes sign: "\<And>x y::'n. (0 < x - y) = (y < x)"
  defines "sk \<equiv> (if temporalWeightingApplied (metadata (performHybridSearch nums cs q opts))
                  then KeyFinalScore else KeyScore)"
  defines "g \<equiv> (\<lambda>c. case key_of sk c of Some v \<Rightarrow> v | None \<Rightarrow> score c)"
  shows "\<And>a. a \<in> set (after_weighting nums cs q opts) \<Longrightarrow> key_of sk a = Some (g a)"
    and "\<And>a b. a \<in> set (after_weighting nums cs q opts) \<Longrightarrow> b \<in> set (after_weighting nums cs q opts)
           \<Longrightarrow> goes_after (compare_desc sk) a b = (g a < g b)"
proof -
  show k: "\<And>a. a \<in> set (after_weighting nums cs q opts) \<Longrightarrow> key_of sk a = Some (g a)"
  proof -
    fix a assume a: "a \<in> set (after_weighting nums cs q opts)"
    show "key_of sk a = Some (g a)"
    proof (cases "temporalWeightingApplied (metadata (performHybridSearch nums cs q opts))")
      case True
      from True a have "finalScore a \<noteq> None" by (rule after_weighting_has_finalScore)
      then show ?thesis using True by (auto simp: sk_def g_def key_of_def)
    next
      case False
      then show ?thesis by (simp add: sk_def g_def key_of_def)
    qed
  qed
  fix a b
  assume "a \<in> set (after_weighting nums cs q opts)" "b \<in> set (after_weighting nums cs q opts)"
  then have "key_of sk a = Some (g a)" "key_of sk b = Some (g b)" using k by auto
  then show "goes_after (compare_desc sk) a b = (g a < g b)"
    by (simp add: goes_after_def compare_desc_def sign)
qed

lemma digits4_all_digits:
  "length ds = 4 \<Longrightarrow> list_all is_digit ds \<Longrightarrow> digits4 (ds @ post) = Some ds"
  by (cases ds; cases "tl ds"; cases "tl (tl ds)"; cases "tl (tl (tl ds))") auto

lemma digits4_no_digit: "\<not> is_digit c \<Longrightarrow> digits4 (c # s) = None"
  by (cases s; cases "tl s"; cases "tl (tl s)") auto

lemma first_match_bare_skips:
  assumes "list_all (\<lambda>c. \<not> is_digit c) pre" "length ds = 4" "list_all is_digit ds"
  shows "first_match digits4 (pre @ ds @ post) = Some ds"
  using assms
proof (induction pre)
  case Nil
  then have d: "digits4 (ds @ post) = Some ds" by (simp add: digits4_all_digits)
  show ?case
  proof (cases "ds @ post")
    case Nil
    with \<open>length ds = 4\<close> show ?thesis by simp
  next
    case (Cons c cs)
    with d show ?thesis by simp
  qed
next
  case (Cons c pre)
  then show ?case by (simp add: digits4_no_digit)
qed

lemma first_match_bare_self:
  "length ds = 4 \<Longrightarrow> list_all is_digit ds \<Longrightarrow> first_match digits4 ds = Some ds"
  using first_match_bare_skips [of "[]" ds "[]"] by simp

lemma map_insert_sorted:
  "map f (insert_sorted (\<lambda>x y. cmp (f x) (f y)) x ys) = insert_sorted cmp (f x) (map f ys)"
  by (induction ys) (auto simp: goes_after_def)

lemma map_array_sort:
  "map f (array_sort (\<lambda>x y. cmp (f x) (f y)) xs) = array_sort cmp (map f xs)"
  unfolding array_sort_def by (induction xs) (auto simp: map_insert_sorted)

lemma list_all_filter: "list_all P xs \<Longrightarrow> list_all P (filter Q xs)"
  by (induction xs) auto

lemma weight_all_eq:
  "list_all (\<lambda>r. r < length (objects s)) rs \<Longrightarrow>
   weight_all nums qy w rs s =
     ([length (objects s) ..< length (objects s) + length rs],
      s\<lparr>objects := objects s @ map (\<lambda>r. weight_chunk nums qy w (objects s ! r)) rs\<rparr>)"
proof (induction rs arbitrary: s)
  case Nil
  then show ?case by simp
next
  case (Cons r rs)
  let ?c = "weight_chunk nums qy w (objects s ! r)"
  let ?s1 = "s\<lparr>objects := objects s @ [?c]\<rparr>"
  have v: "list_all (\<lambda>r. r < length (objects ?s1)) rs"
    using Cons.prems by (auto simp: list_all_iff)
  have m: "map (\<lambda>r. weight_chunk nums qy w (objects ?s1 ! r)) rs
         = map (\<lambda>r. weight_chunk nums qy w (objects s ! r)) rs"
    using Cons.prems by (auto simp: list_all_iff nth_append)
  have u: "[length (objects s) ..< length (objects s) + length (r # rs)]
         = length (objects s) # [length (objects ?s1) ..< length (objects ?s1) + length rs]"
    by (simp add: upt_conv_Cons del: upt_Suc)
  have "weight_all nums qy w (r # rs) s
      = (length (objects s) # fst (weight_all nums qy w rs ?s1), snd (weight_all nums qy w rs ?s1))"
    by (simp add: new_object_def split: prod.splits)
  also have "\<dots> = (length (objects s) # [length (objects ?s1) ..< length (objects ?s1) + length rs],
      ?s1\<lparr>objects := objects ?s1 @ map (\<lambda>r. weight_chunk nums qy w (objects ?s1 ! r)) rs\<rparr>)"
    unfolding Cons.IH [OF v] by (simp only: fst_conv snd_conv)
  also have "\<dots> = ([length (objects s) ..< length (objects s) + length (r # rs)],
      s\<lparr>objects := objects s @ map (\<lambda>r. weight_chunk nums qy w (objects s ! r)) (r # rs)\<rparr>)"
    unfolding u m by simp
  finally show ?case .
qed

lemma applyTemporalWeighting_st_eq:
  "list_all (\<lambda>r. r < length (objects s)) (arrays s ! a) \<Longrightarrow>
   applyTemporalWeighting_st nums a qy w s =
     (length (arrays s),
      s\<lparr>objects := objects s @ map (\<lambda>r. weight_chunk nums qy w (objects s ! r)) (arrays s ! a),
        arrays := arrays s @ [[length (objects s) ..< length (objects s) + length (arrays s ! a)]]\<rparr>)"
  by (simp add: applyTemporalWeighting_st_def weight_all_eq new_array_def)

lemma nth_upt_append:
  "map (\<lambda>r. (xs @ ys) ! r) [length xs ..< length xs + length ys] = ys"
  by (rule nth_equalityI) (auto simp: nth_append)


lemmas store_defs = performHybridSearch_st_def new_array_def filterByYear_st_def
  sort_in_place_def result_array_def result_metadata_def result_store_def array_values_def
  Let_def

lemma sorted_values:
  "map (\<lambda>r. objs ! r) (array_sort (\<lambda>x y. cmp (objs ! x) (objs ! y)) rs)
     = array_sort cmp (map (\<lambda>r. objs ! r) rs)"
  using map_array_sort [of "\<lambda>r. objs ! r" cmp rs] .

lemma filter_values:
  "filter P (map (\<lambda>r. objs ! r) rs) = map (\<lambda>r. objs ! r) (filter (\<lambda>r. P (objs ! r)) rs)"
  by (induction rs) auto

lemma nth_app1: "(xs @ [y0, y1]) ! Suc (length xs) = y1"
  by (simp add: nth_append)

lemma nth_app2: "(xs @ [y0, y1, y2]) ! Suc (Suc (length xs)) = y2"
  by (simp add: nth_append)

lemma upd_app1: "(xs @ [y0, y1])[Suc (length xs) := v] = xs @ [y0, v]"
  by (simp add: list_update_append)

lemma upd_app2: "(xs @ [y0, y1, y2])[Suc (Suc (length xs)) := v] = xs @ [y0, y1, v]"
  by (simp add: list_update_append)

lemma new_values:
  "length ys = k \<Longrightarrow> map (\<lambda>r. (xs @ ys) ! r) [length xs ..< length xs + k] = ys"
  using nth_upt_append [of xs ys] by simp

lemmas store_index = nth_app1 nth_app2 upd_app1 upd_app2 new_values

lemma store_explicit:
  fixes nums :: "'n::{one,plus,minus,times,zero,ord} numbers"
  assumes v: "valid_array s a"
  shows "\<exists>mid rs2 news.
           performHybridSearch_st nums a q opts s =
             (length (arrays s) + length mid,
              metadata (performHybridSearch nums (array_values s a) q opts),
              \<lparr>objects = objects s @ news,
               arrays = arrays s @ mid @
                 [array_sort (\<lambda>x y. compare_desc
                      (if temporalWeightingApplied (metadata (performHybridSearch nums (array_values s a) q opts))
                       then KeyFinalScore else KeyScore)
                      ((objects s @ news) ! x) ((objects s @ news) ! y)) rs2]\<rparr>) \<and>
           map (\<lambda>r. (objects s @ news) ! r) rs2 = after_weighting nums (array_values s a) q opts \<and>
           list_all (\<lambda>r. if temporalWeightingApplied (metadata (performHybridSearch nums (array_values s a) q opts))
                          then length (objects s) \<le> r \<and> r < length (objects s @ news)
                          else r \<in> set (arrays s ! a)) rs2"
proof -
  let ?rs = "arrays s ! a"
  let ?n = "length (objects s)"
  have la: "list_all (\<lambda>r. r < ?n) ?rs" using v by (simp add: valid_array_def)
  show ?thesis
  proof (cases "extractYearFromQuery q")
    case None
    show ?thesis
      apply (rule exI [of _ "[]"], rule exI [of _ ?rs], rule exI [of _ "[]"])
      using None la
      apply (simp add: store_defs truthy_def performHybridSearch_def after_weighting_def
          after_filtering_def list_all_iff)
      done
  next
    case (Some y)
    then have y0: "y \<noteq> 0" using extractYear_range [of q y] by auto
    let ?K = "\<lambda>r. keep_chunk y (yearTolerance_of opts) (objects s ! r)"
    let ?W = "\<lambda>r. weight_chunk nums y (temporalWeight_of nums opts) (objects s ! r)"
    have lf: "list_all (\<lambda>r. r < ?n) (filter ?K ?rs)" using la by (rule list_all_filter)
    show ?thesis
    proof (cases "enableFiltering_of opts"; cases "enableWeighting_of opts")
      assume ef: "enableFiltering_of opts" and ew: "enableWeighting_of opts"
      show ?thesis
        apply (rule exI [of _ "[?rs, filter ?K ?rs]"],
               rule exI [of _ "[?n ..< ?n + length (filter ?K ?rs)]"],
               rule exI [of _ "map ?W (filter ?K ?rs)"])
        using Some y0 ef ew la lf
        apply (simp add: store_defs truthy_def performHybridSearch_def after_weighting_def
          after_filtering_def applyTemporalWeighting_st_eq store_index filterByYear_def
          applyTemporalWeighting_def filter_values list_all_iff)
        done
    next
      assume ef: "enableFiltering_of opts" and ew: "\<not> enableWeighting_of opts"
      show ?thesis
        apply (rule exI [of _ "[?rs]"], rule exI [of _ "filter ?K ?rs"], rule exI [of _ "[]"])
        using Some y0 ef ew la lf
        apply (simp add: store_defs truthy_def performHybridSearch_def after_weighting_def
          after_filtering_def store_index filterByYear_def filter_values list_all_iff)
        done
    next
      assume ef: "\<not> enableFiltering_of opts" and ew: "enableWeighting_of opts"
      show ?thesis
        apply (rule exI [of _ "[?rs]"],
               rule exI [of _ "[?n ..< ?n + length ?rs]"],
               rule exI [of _ "map ?W ?rs"])
        using Some y0 ef ew la
        apply (simp add: store_defs truthy_def performHybridSearch_def after_weighting_def
          after_filtering_def applyTemporalWeighting_st_eq store_index
          applyTemporalWeighting_def list_all_iff)
        done
    next
      assume ef: "\<not> enableFiltering_of opts" and ew: "\<not> enableWeighting_of opts"
      show ?thesis
        apply (rule exI [of _ "[]"], rule exI [of _ ?rs], rule exI [of _ "[]"])
        using Some y0 ef ew la
        apply (simp add: store_defs truthy_def performHybridSearch_def after_weighting_def
          after_filtering_def list_all_iff)
        done
    qed
  qed
qed


lemma added_fields_only_refl: "added_fields_only c c"
  by (simp add: added_fields_only_def)

lemma added_fields_only_weight: "added_fields_only c (weight_chunk nums qy w c)"
  by (simp add: added_fields_only_def weight_chunk_def Let_def split: option.splits)

lemma added_fields_only_same:
  "added_fields_only c c' \<Longrightarrow>
     text c' = text c \<and> filename c' = filename c \<and> page c' = page c \<and>
     score c' = score c \<and> year c' = year c"
  unfolding added_fields_only_def
  by (metis (no_types, lifting) chunk.select_convs chunk.surjective chunk.update_convs)

lemma after_filtering_subset: "set (after_filtering cs q opts) \<subseteq> set cs"
  by (auto simp: after_filtering_def filterByYear_def split: option.splits if_splits)

lemma after_weighting_frame:
  assumes "c' \<in> set (after_weighting nums cs q opts)"
  shows "\<exists>c\<in>set cs. added_fields_only c c'"
proof (cases "after_weighting nums cs q opts = after_filtering cs q opts")
  case True
  with assms after_filtering_subset [of cs q opts] show ?thesis
    by (auto intro: added_fields_only_refl)
next
  case False
  then obtain y where "after_weighting nums cs q opts
      = applyTemporalWeighting nums (after_filtering cs q opts) y (temporalWeight_of nums opts)"
    by (auto simp: after_weighting_def split: option.splits if_splits)
  with assms obtain c where "c \<in> set (after_filtering cs q opts)"
      and "c' = weight_chunk nums y (temporalWeight_of nums opts) c"
    by (auto simp: applyTemporalWeighting_def)
  with after_filtering_subset [of cs q opts] show ?thesis
    by (auto intro: added_fields_only_weight)
qed

lemma ranked_frame:
  assumes "c' \<in> set (chunks (performHybridSearch nums cs q opts))"
  shows "\<exists>c\<in>set cs. added_fields_only c c'"
proof -
  from assms have "c' \<in> set (after_weighting nums cs q opts)"
    by (simp add: chunks_performHybridSearch set_array_sort)
  then show ?thesis by (rule after_weighting_frame)
qed

lemma filterByYear_st_facts:
  "objects (snd (filterByYear_st a y t s)) = objects s \<and>
   take (length (arrays s)) (arrays (snd (filterByYear_st a y t s))) = arrays s \<and>
   array_values (snd (filterByYear_st a y t s)) (fst (filterByYear_st a y t s))
     = filterByYear (array_values s a) y t \<and>
   set (arrays (snd (filterByYear_st a y t s)) ! fst (filterByYear_st a y t s)) \<subseteq> set (arrays s ! a)"
  by (simp add: filterByYear_st_def new_array_def array_values_def filterByYear_def filter_values)

lemma applyTemporalWeighting_st_facts:
  assumes "valid_array s a"
  shows "take (length (objects s)) (objects (snd (applyTemporalWeighting_st nums a y w s))) = objects s \<and>
   take (length (arrays s)) (arrays (snd (applyTemporalWeighting_st nums a y w s))) = arrays s \<and>
   array_values (snd (applyTemporalWeighting_st nums a y w s)) (fst (applyTemporalWeighting_st nums a y w s))
     = applyTemporalWeighting nums (array_values s a) y w \<and>
   list_all (\<lambda>r. length (objects s) \<le> r)
     (arrays (snd (applyTemporalWeighting_st nums a y w s)) ! fst (applyTemporalWeighting_st nums a y w s))"
proof -
  have la: "list_all (\<lambda>r. r < length (objects s)) (arrays s ! a)"
    using assms by (simp add: valid_array_def)
  show ?thesis
    by (simp add: applyTemporalWeighting_st_eq [OF la] array_values_def applyTemporalWeighting_def
        new_values list_all_iff)
qed

lemma digits4_eq:
  "digits4 s = (if four_digits s then Some (take 4 s) else None)"
  by (cases s; cases "tl s"; cases "tl (tl s)"; cases "tl (tl (tl s))")
     (auto simp: four_digits_def)

lemma find_mapped: "find P (map f xs) = map_option f (find (\<lambda>x. P (f x)) xs)"
  by (induction xs) auto

lemma find_upt_Suc:
  "find P [0..<Suc n] = (if P 0 then Some 0 else map_option Suc (find (\<lambda>i. P (Suc i)) [0..<n]))"
proof -
  have "[0..<Suc n] = 0 # map Suc [0..<n]"
    by (simp add: upt_conv_Cons map_Suc_upt del: upt_Suc)
  then show ?thesis by (simp add: find_mapped del: upt_Suc)
qed

lemma first_match_leftmost:
  assumes "p [] = None"
  shows "first_match p q =
           (case leftmost (\<lambda>s. p s \<noteq> None) q of None \<Rightarrow> None | Some i \<Rightarrow> p (drop i q))"
proof (induction q)
  case Nil
  then show ?case using assms by (simp add: leftmost_def)
next
  case (Cons c cs)
  show ?case
  proof (cases "p (c # cs)")
    case None
    then show ?thesis
      using Cons
      by (simp add: leftmost_def find_upt_Suc del: upt_Suc split: option.splits)
  next
    case (Some m)
    then show ?thesis
      by (simp add: leftmost_def find_upt_Suc del: upt_Suc)
  qed
qed


lemma digit_not_space: "is_digit c \<Longrightarrow> \<not> is_space c"
  by (auto simp: is_digit_def is_space_def)

lemma four_digits_Cons: "four_digits (c # cs) \<Longrightarrow> is_digit c"
  by (auto simp: four_digits_def take_Suc_conv_app_nth numeral_eq_Suc)

lemma spaces_then_year_eq:
  "spaces_then_year s =
     (if 0 < space_run s \<and> four_digits (drop (space_run s) s)
      then Some (take (space_run s) s @ take 4 (drop (space_run s) s)) else None)"
proof (induction s)
  case Nil
  then show ?case by (simp add: space_run_def)
next
  case (Cons c cs)
  show ?case
  proof (cases "is_space c")
    case False
    then show ?thesis by (simp add: space_run_def)
  next
    case sp: True
    then have r: "space_run (c # cs) = Suc (space_run cs)" by (simp add: space_run_def)
    show ?thesis
    proof (cases "0 < space_run cs")
      case True
      then have "cs \<noteq> []" "is_space (hd cs)"
        by (auto simp: space_run_def takeWhile_eq_Nil_iff neq_Nil_conv split: if_splits)
      then have "\<not> four_digits cs"
        using four_digits_Cons [of "hd cs" "tl cs"] digit_not_space by auto
      then show ?thesis
        using sp True Cons unfolding r by (simp add: digits4_eq)
    next
      case False
      then have z: "space_run cs = 0" by simp
      then have "spaces_then_year cs = None" using Cons by simp
      then show ?thesis
        using sp z unfolding r by (simp add: digits4_eq)
    qed
  qed
qed

lemma literal_ci_eq:
  "literal_ci w s =
     (if length w \<le> length s \<and> list_all2 char_ci w (take (length w) s)
      then Some (take (length w) s, drop (length w) s) else None)"
proof (induction w s rule: literal_ci.induct)
  case (1 s)
  then show ?case by simp
next
  case (2 p ps)
  then show ?case by simp
next
  case (3 p ps c cs)
  then show ?case by auto
qed

lemma cue_then_year_eq:
  "cue_then_year ws s =
     (case find (\<lambda>w. starts_with_cue w s) ws of
        None \<Rightarrow> None
      | Some w \<Rightarrow>
          Some (take (length w) s @
                take (space_run (drop (length w) s)) (drop (length w) s) @ cue_digits w s))"
proof (induction ws)
  case Nil
  then show ?case by simp
next
  case (Cons w ws)
  show ?case
  proof (cases "starts_with_cue w s")
    case True
    then show ?thesis
      by (simp add: literal_ci_eq spaces_then_year_eq starts_with_cue_def cue_digits_def)
  next
    case False
    then show ?thesis
      using Cons
      by (auto simp: literal_ci_eq spaces_then_year_eq starts_with_cue_def)
  qed
qed

lemma char_ci_not_digit: "char_ci p c \<Longrightarrow> \<not> is_digit p \<Longrightarrow> \<not> is_digit c"
  by (auto simp: char_ci_def to_upper_def is_digit_def split: if_splits)

lemma matched_word_no_digit:
  "list_all2 char_ci w m \<Longrightarrow> list_all (\<lambda>p. \<not> is_digit p) w \<Longrightarrow> list_all (\<lambda>c. \<not> is_digit c) m"
  by (induction w m rule: list_all2_induct) (auto dest: char_ci_not_digit)

lemma space_run_no_digit: "list_all (\<lambda>c. \<not> is_digit c) (take (space_run s) s)"
proof -
  have "take (space_run s) s = takeWhile is_space s"
    unfolding space_run_def by (metis takeWhile_eq_take)
  then show ?thesis
    using digit_not_space by (auto simp: list_all_iff dest: set_takeWhileD)
qed

lemma find_SomeD: "find P xs = Some x \<Longrightarrow> x \<in> set xs \<and> P x"
  by (induction xs) (auto split: if_splits)

lemma find_is_Some: "(find P xs \<noteq> None) = list_ex P xs"
  by (induction xs) auto

lemma four_digits_take: "four_digits s \<Longrightarrow> length (take 4 s) = 4 \<and> list_all is_digit (take 4 s)"
  by (simp add: four_digits_def)

lemma pattern_year_bare: "pattern_year digits4 q = bare_year q"
proof -
  have n: "(\<lambda>s. digits4 s \<noteq> None) = four_digits"
    by (rule ext) (simp add: digits4_eq)
  have f: "first_match digits4 q =
      (case leftmost four_digits q of None \<Rightarrow> None | Some i \<Rightarrow> digits4 (drop i q))"
    using first_match_leftmost [of digits4 q] unfolding n by simp
  show ?thesis
  proof (cases "leftmost four_digits q")
    case None
    then show ?thesis using f by (simp add: pattern_year_def bare_year_def)
  next
    case (Some i)
    then have fd: "four_digits (drop i q)"
      unfolding leftmost_def by (auto dest: find_SomeD)
    then have m: "first_match digits4 q = Some (take 4 (drop i q))"
      using f Some by (simp add: digits4_eq)
    have "first_match digits4 (take 4 (drop i q)) = Some (take 4 (drop i q))"
      using four_digits_take [OF fd] by (simp add: first_match_bare_self)
    then show ?thesis
      using m Some by (simp add: pattern_year_def bare_year_def checked_year_def Let_def)
  qed
qed

lemma pattern_year_cue:
  assumes nd: "list_all (list_all (\<lambda>p. \<not> is_digit p)) ws"
  shows "pattern_year (cue_then_year ws) q = cue_year ws q"
proof -
  have "find (\<lambda>w. starts_with_cue w []) ws = None"
    by (simp add: find_None_iff starts_with_cue_def space_run_def)
  then have e: "cue_then_year ws [] = None"
    by (simp add: cue_then_year_eq)
  have n: "(\<lambda>s. cue_then_year ws s \<noteq> None) = (\<lambda>s. list_ex (\<lambda>w. starts_with_cue w s) ws)"
    by (rule ext) (simp add: cue_then_year_eq find_is_Some [symmetric] split: option.splits)
  have f: "first_match (cue_then_year ws) q =
      (case leftmost (\<lambda>s. list_ex (\<lambda>w. starts_with_cue w s) ws) q of
         None \<Rightarrow> None | Some j \<Rightarrow> cue_then_year ws (drop j q))"
    using first_match_leftmost [of "cue_then_year ws" q] e unfolding n by simp
  show ?thesis
  proof (cases "leftmost (\<lambda>s. list_ex (\<lambda>w. starts_with_cue w s) ws) q")
    case None
    then show ?thesis using f by (simp add: pattern_year_def cue_year_def)
  next
    case lj: (Some j)
    let ?s = "drop j q"
    show ?thesis
    proof (cases "find (\<lambda>w. starts_with_cue w ?s) ws")
      case None
      then show ?thesis
        using f lj by (simp add: pattern_year_def cue_year_def cue_then_year_eq)
    next
      case fw: (Some w)
      then have w: "w \<in> set ws" "starts_with_cue w ?s"
        by (auto dest: find_SomeD)
      let ?r = "drop (length w) ?s"
      let ?pre = "take (length w) ?s @ take (space_run ?r) ?r"
      have m0: "first_match (cue_then_year ws) q = Some (?pre @ cue_digits w ?s)"
        using f lj fw by (simp add: cue_then_year_eq)
      have "list_all (\<lambda>p. \<not> is_digit p) w"
        using nd w(1) by (auto simp: list_all_iff)
      then have "list_all (\<lambda>c. \<not> is_digit c) (take (length w) ?s)"
        using w(2) matched_word_no_digit unfolding starts_with_cue_def by blast
      then have pre: "list_all (\<lambda>c. \<not> is_digit c) ?pre"
        using space_run_no_digit [of ?r] by simp
      have ds: "length (cue_digits w ?s) = 4" "list_all is_digit (cue_digits w ?s)"
        using w(2) four_digits_take unfolding starts_with_cue_def cue_digits_def by blast+
      have "first_match digits4 (?pre @ cue_digits w ?s @ []) = Some (cue_digits w ?s)"
        using pre ds by (rule first_match_bare_skips)
      then have "first_match digits4 (?pre @ cue_digits w ?s) = Some (cue_digits w ?s)"
        by simp
      then show ?thesis
        using m0 lj fw
        by (simp add: pattern_year_def cue_year_def checked_year_def Let_def)
    qed
  qed
qed

lemma cue_words_no_digit:
  "list_all (list_all (\<lambda>p. \<not> is_digit p)) cue_words"
  "list_all (list_all (\<lambda>p. \<not> is_digit p)) article_words"
  by (simp_all add: cue_words_def article_words_def ascii_def is_digit_def)

lemma extractYear_by_priority: "extractYearFromQuery q = year_by_priority q"
  by (simp add: extractYearFromQuery_def yearPatterns_def year_by_priority_def
      pattern_year_bare pattern_year_cue cue_words_no_digit split: option.splits)

lemma find_upt_leftmost:
  assumes "i < n" "P i" "list_all (\<lambda>j. \<not> P j) [0..<i]"
  shows "find P [0..<n] = Some i"
proof -
  have "\<exists>k<length [0..<n]. P ([0..<n] ! k) \<and> i = [0..<n] ! k \<and> (\<forall>j<k. \<not> P ([0..<n] ! j))"
    using assms by (intro exI [of _ i]) (auto simp: list_all_iff)
  then show ?thesis by (simp only: find_Some_iff)
qed

lemma four_digits_drop_in_range: "four_digits (drop i q) \<Longrightarrow> i < length q"
  by (cases "i < length q") (auto simp: four_digits_def)

lemma leftmost_four_digits:
  assumes "four_digits (drop i q)" "list_all (\<lambda>j. \<not> four_digits (drop j q)) [0..<i]"
  shows "leftmost four_digits q = Some i"
  unfolding leftmost_def
  using four_digits_drop_in_range [OF assms(1)] assms
  by (rule find_upt_leftmost [where P = "\<lambda>i. four_digits (drop i q)"])

lemma no_four_digits_anywhere:
  assumes "list_all (\<lambda>j. \<not> four_digits (drop j q)) [0..<length q]"
  shows "\<not> four_digits (drop j q)"
proof
  assume f: "four_digits (drop j q)"
  then have "j < length q" by (rule four_digits_drop_in_range)
  with assms f show False by (auto simp: list_all_iff)
qed

lemma cue_needs_four_digits:
  assumes "list_all (\<lambda>j. \<not> four_digits (drop j q)) [0..<length q]"
  shows "cue_year ws q = None"
proof (cases "leftmost (\<lambda>s. list_ex (\<lambda>w. starts_with_cue w s) ws) q")
  case None
  then show ?thesis by (simp add: cue_year_def)
next
  case (Some j)
  then have "list_ex (\<lambda>w. starts_with_cue w (drop j q)) ws"
    unfolding leftmost_def by (auto dest: find_SomeD)
  then obtain w where "starts_with_cue w (drop j q)" by (auto simp: list_ex_iff)
  then have "four_digits (drop (space_run (drop (length w) (drop j q)) + (length w + j)) q)"
    by (simp add: starts_with_cue_def)
  with no_four_digits_anywhere [OF assms] show ?thesis by blast
qed

lemma first_match_bare_leftmost:
  "first_match digits4 q =
     (case leftmost four_digits q of None \<Rightarrow> None | Some i \<Rightarrow> digits4 (drop i q))"
proof -
  have n: "(\<lambda>s. digits4 s \<noteq> None) = four_digits"
    by (rule ext) (simp add: digits4_eq)
  show ?thesis
    using first_match_leftmost [of digits4 q] unfolding n by simp
qed

section \<open>Claims about performHybridSearch\<close>

text \<open>
  Claim C1. For every chunk list, query and options, the metadata returned by
  \<open>performHybridSearch\<close> has \<open>queryYear\<close> equal to the year extracted from the query;
  \<open>temporalFilterApplied\<close> is true exactly when a year was extracted and the option
  \<open>enableFiltering\<close> is not \<open>false\<close> (absent, it is \<open>true\<close>);
  \<open>temporalWeightingApplied\<close> is true exactly when a year was extracted and the option
  \<open>enableWeighting\<close> is not \<open>false\<close>; \<open>originalCount\<close> is the length of the input list;
  \<open>filteredCount\<close> is the length of the working set after the filtering step, that is of
  \<open>filterByYear\<close> of the input at the year extracted and the option \<open>yearTolerance\<close>
  (absent, 2) when the filter runs and of the input otherwise, and never exceeds
  \<open>originalCount\<close>; the two counts are equal when filtering is disabled or no year is found;
  and for an empty input list the ranked list is empty and both counts are 0, the year being
  extracted all the same.
\<close>

theorem hybrid_metadata:
  "queryYear (metadata (performHybridSearch nums cs q opts)) = extractYearFromQuery q \<and>
   temporalFilterApplied (metadata (performHybridSearch nums cs q opts))
     = (extractYearFromQuery q \<noteq> None \<and> enableFiltering opts \<noteq> Some False) \<and>
   temporalWeightingApplied (metadata (performHybridSearch nums cs q opts))
     = (extractYearFromQuery q \<noteq> None \<and> enableWeighting opts \<noteq> Some False) \<and>
   originalCount (metadata (performHybridSearch nums cs q opts)) = length cs \<and>
   filteredCount (metadata (performHybridSearch nums cs q opts))
     = (case extractYearFromQuery q of
          None \<Rightarrow> length cs
        | Some y \<Rightarrow>
            if enableFiltering opts = Some False then length cs
            else length (filterByYear cs y (case yearTolerance opts of None \<Rightarrow> 2 | Some t \<Rightarrow> t))) \<and>
   filteredCount (metadata (performHybridSearch nums cs q opts)) = length (after_filtering cs q opts) \<and>
   filteredCount (metadata (performHybridSearch nums cs q opts))
     \<le> originalCount (metadata (performHybridSearch nums cs q opts)) \<and>
   (enableFiltering opts = Some False \<or> extractYearFromQuery q = None \<longrightarrow>
      filteredCount (metadata (performHybridSearch nums cs q opts))
        = originalCount (metadata (performHybridSearch nums cs q opts))) \<and>
   (cs = [] \<longrightarrow>
      chunks (performHybridSearch nums cs q opts) = [] \<and>
      originalCount (metadata (performHybridSearch nums cs q opts)) = 0 \<and>
      filteredCount (metadata (performHybridSearch nums cs q opts)) = 0)"
proof -
  let ?md = "metadata (performHybridSearch nums cs q opts)"
  have t: "truthy (extractYearFromQuery q) = (extractYearFromQuery q \<noteq> None)"
    by (rule truthy_extractYear)
  have ef: "enableFiltering_of opts = (enableFiltering opts \<noteq> Some False)"
    by (cases "enableFiltering opts") (auto simp: enableFiltering_of_def)
  have ew: "enableWeighting_of opts = (enableWeighting opts \<noteq> Some False)"
    by (cases "enableWeighting opts") (auto simp: enableWeighting_of_def)
  have qy: "queryYear ?md = extractYearFromQuery q"
    by (simp add: performHybridSearch_def Let_def)
  have fa: "temporalFilterApplied ?md
      = (extractYearFromQuery q \<noteq> None \<and> enableFiltering opts \<noteq> Some False)"
    by (simp add: performHybridSearch_def Let_def t ef)
  have wa: "temporalWeightingApplied ?md
      = (extractYearFromQuery q \<noteq> None \<and> enableWeighting opts \<noteq> Some False)"
    by (simp add: performHybridSearch_def Let_def t ew)
  have oc: "originalCount ?md = length cs"
    by (simp add: performHybridSearch_def Let_def)
  have fc: "filteredCount ?md = length (after_filtering cs q opts)"
    by (auto simp: performHybridSearch_def Let_def t after_filtering_unfiltered)
  have af: "length (after_filtering cs q opts)
     = (case extractYearFromQuery q of
          None \<Rightarrow> length cs
        | Some y \<Rightarrow>
            if enableFiltering opts = Some False then length cs
            else length (filterByYear cs y (case yearTolerance opts of None \<Rightarrow> 2 | Some t \<Rightarrow> t)))"
  proof (cases "extractYearFromQuery q")
    case None
    then show ?thesis by (simp add: after_filtering_def)
  next
    case (Some y)
    then have "truthy (Some y)" using t by simp
    then show ?thesis
      using Some by (simp add: after_filtering_def ef yearTolerance_of_def)
  qed
  have le: "filteredCount ?md \<le> originalCount ?md"
    unfolding fc oc by (rule length_after_filtering)
  have un: "enableFiltering opts = Some False \<or> extractYearFromQuery q = None \<longrightarrow>
      filteredCount ?md = originalCount ?md"
    unfolding fc oc af by (auto split: option.splits)
  have em: "cs = [] \<longrightarrow> chunks (performHybridSearch nums cs q opts) = [] \<and>
      originalCount ?md = 0 \<and> filteredCount ?md = 0"
  proof
    assume e: "cs = []"
    have "length (chunks (performHybridSearch nums cs q opts)) = length (after_filtering cs q opts)"
      by (simp add: performHybridSearch_def Let_def length_array_sort length_after_weighting)
    moreover have "length (after_filtering cs q opts) = 0"
      using length_after_filtering [of cs q opts] e by simp
    ultimately show "chunks (performHybridSearch nums cs q opts) = [] \<and>
      originalCount ?md = 0 \<and> filteredCount ?md = 0"
      using oc fc e by simp
  qed
  have fr: "filteredCount ?md
     = (case extractYearFromQuery q of
          None \<Rightarrow> length cs
        | Some y \<Rightarrow>
            if enableFiltering opts = Some False then length cs
            else length (filterByYear cs y (case yearTolerance opts of None \<Rightarrow> 2 | Some t \<Rightarrow> t)))"
    unfolding fc af ..
  from qy fa wa oc fr fc le un em show ?thesis by blast
qed

theorem hybrid_metadata_witness:
  "enableFiltering (default_options\<lparr>enableFiltering := Some False\<rparr>) = Some False \<and>
   ([] :: real chunk list) = [] \<and>
   chunks (performHybridSearch example_numbers [] query_2025
             (default_options\<lparr>enableFiltering := Some False\<rparr>)) = [] \<and>
   metadata (performHybridSearch example_numbers [] query_2025
             (default_options\<lparr>enableFiltering := Some False\<rparr>))
     = \<lparr>queryYear = Some 2025, temporalFilterApplied = False, temporalWeightingApplied = True,
        originalCount = 0, filteredCount = 0\<rparr> \<and>
   metadata (performHybridSearch example_numbers [chunk_2025, chunk_2020] query_2025 default_options)
     = \<lparr>queryYear = Some 2025, temporalFilterApplied = True, temporalWeightingApplied = True,
        originalCount = 2, filteredCount = 1\<rparr> \<and>
   metadata (performHybridSearch example_numbers [chunk_2025, chunk_2020] query_2025
             (default_options\<lparr>enableWeighting := Some False\<rparr>))
     = \<lparr>queryYear = Some 2025, temporalFilterApplied = True, temporalWeightingApplied = False,
        originalCount = 2, filteredCount = 1\<rparr> \<and>
   metadata (performHybridSearch example_numbers [chunk_2025, chunk_2020] query_2025
             (default_options\<lparr>enableFiltering := Some False, enableWeighting := Some True,
                              yearTolerance := Some 5\<rparr>))
     = \<lparr>queryYear = Some 2025, temporalFilterApplied = False, temporalWeightingApplied = True,
        originalCount = 2, filteredCount = 2\<rparr> \<and>
   metadata (performHybridSearch example_numbers [chunk_2025, chunk_2020] query_2025
             (default_options\<lparr>yearTolerance := Some 5\<rparr>))
     = \<lparr>queryYear = Some 2025, temporalFilterApplied = True, temporalWeightingApplied = True,
        originalCount = 2, filteredCount = 2\<rparr> \<and>
   extractYearFromQuery query_no_year = None \<and>
   metadata (performHybridSearch example_numbers [chunk_2025, chunk_2020] query_no_year default_options)
     = \<lparr>queryYear = None, temporalFilterApplied = False, temporalWeightingApplied = False,
        originalCount = 2, filteredCount = 2\<rparr>"
  using hybrid_metadata [of example_numbers "[]" query_2025
      "default_options\<lparr>enableFiltering := Some False\<rparr>"]
    hybrid_metadata [of example_numbers "[chunk_2025, chunk_2020]" query_2025 default_options]
    hybrid_metadata [of example_numbers "[chunk_2025, chunk_2020]" query_2025
      "default_options\<lparr>enableWeighting := Some False\<rparr>"]
    hybrid_metadata [of example_numbers "[chunk_2025, chunk_2020]" query_no_year default_options]
  by (simp add: q2025 qnone search_defs ex_defs)

section \<open>Claims about filterByYear and applyTemporalWeighting\<close>

text \<open>
  Claim C2, as stated, fails: \<open>filterByYear\<close> tests \<open>!chunk.year\<close>, which is true of an
  absent year and of the year \<open>0\<close> alike. A chunk whose \<open>year\<close> field is \<open>0\<close> has a year,
  at distance 2025 from the target 2025, beyond the tolerance 2, and is retained.
\<close>

theorem filterByYear_year0_counterexample:
  "year chunk_year0 = Some 0 \<and> \<not> \<bar>0 - 2025\<bar> \<le> (2::int) \<and>
   filterByYear [chunk_year0] 2025 2 = [chunk_year0]"
  by (simp add: filterByYear_def keep_chunk_def truthy_def chunk_year0_def)

text \<open>
  Claim C2, amended. \<open>filterByYear\<close> retains a chunk if and only if its year is absent or
  \<open>0\<close>, or the distance of its year to the target year is at most the tolerance; the
  chunks retained keep their relative order (the result is a subsequence of the input);
  every chunk whose year is absent or \<open>0\<close> is in the output whatever the tolerance, also
  0; and an empty input gives an empty output.
\<close>

theorem filterByYear_policy:
  "filterByYear cs targetYear tolerance
     = filter (\<lambda>c. year c = None \<or> year c = Some 0 \<or>
                    (\<exists>y. year c = Some y \<and> \<bar>y - targetYear\<bar> \<le> tolerance)) cs \<and>
   subseq (filterByYear cs targetYear tolerance) cs \<and>
   (\<forall>c \<in> set cs. year c = None \<or> year c = Some 0 \<longrightarrow> c \<in> set (filterByYear cs targetYear tolerance)) \<and>
   filterByYear [] targetYear tolerance = []"
proof -
  have k: "keep_chunk targetYear tolerance
      = (\<lambda>c::'a chunk. year c = None \<or> year c = Some 0 \<or>
                    (\<exists>y. year c = Some y \<and> \<bar>y - targetYear\<bar> \<le> tolerance))"
    by (rule ext) (auto simp: keep_chunk_def truthy_def Let_def split: option.splits)
  have a: "filterByYear cs targetYear tolerance
     = filter (\<lambda>c. year c = None \<or> year c = Some 0 \<or>
                    (\<exists>y. year c = Some y \<and> \<bar>y - targetYear\<bar> \<le> tolerance)) cs"
    unfolding filterByYear_def k ..
  have b: "subseq (filterByYear cs targetYear tolerance) cs"
    unfolding filterByYear_def by simp
  have c: "\<forall>c \<in> set cs. year c = None \<or> year c = Some 0 \<longrightarrow> c \<in> set (filterByYear cs targetYear tolerance)"
    by (auto simp: filterByYear_def keep_chunk_def truthy_def)
  have d: "filterByYear [] targetYear tolerance = []"
    by (simp add: filterByYear_def)
  from a b c d show ?thesis by blast
qed

theorem filterByYear_policy_witness:
  "chunk_undated \<in> set [chunk_2025, chunk_2020, chunk_undated, chunk_year0] \<and>
   year chunk_undated = None \<and>
   chunk_undated \<in> set (filterByYear [chunk_2025, chunk_2020, chunk_undated, chunk_year0] 2025 0) \<and>
   filterByYear [chunk_2025, chunk_2020, chunk_undated, chunk_year0] 2025 0
     = [chunk_2025, chunk_undated, chunk_year0] \<and>
   filterByYear [chunk_2025, chunk_2020, chunk_undated, chunk_year0] 2022 2
     = [chunk_2020, chunk_undated, chunk_year0]"
  using filterByYear_policy [of "[chunk_2025, chunk_2020, chunk_undated, chunk_year0]" 2025 0]
    filterByYear_policy [of "[chunk_2025, chunk_2020, chunk_undated, chunk_year0]" 2022 2]
  by (simp add: ex_defs filterByYear_def keep_chunk_def truthy_def)

text \<open>
  Claim C3, as stated, fails for the same reason: \<open>applyTemporalWeighting\<close> tests
  \<open>!chunk.year\<close>, so a chunk whose \<open>year\<close> field is \<open>0\<close> has a year and yet is emitted
  with \<open>finalScore = score\<close>, with neither \<open>temporalScore\<close> nor \<open>originalScore\<close>.
\<close>

theorem applyTemporalWeighting_year0_counterexample:
  "year chunk_year0 = Some 0 \<and>
   applyTemporalWeighting example_numbers [chunk_year0] 2025 (3 / 10)
     = [chunk_year0\<lparr>finalScore := Some (score chunk_year0)\<rparr>] \<and>
   map temporalScore (applyTemporalWeighting example_numbers [chunk_year0] 2025 (3 / 10)) = [None] \<and>
   map originalScore (applyTemporalWeighting example_numbers [chunk_year0] 2025 (3 / 10)) = [None]"
  by (simp add: applyTemporalWeighting_def weight_chunk_def truthy_def chunk_year0_def)

text \<open>
  Claim C3, amended. \<open>applyTemporalWeighting\<close> maps each chunk on its own, position by
  position (the output has the length of the input, element \<open>i\<close> coming from element \<open>i\<close>): a
  chunk whose year is absent or \<open>0\<close> is emitted as a copy with \<open>finalScore = score\<close> and
  nothing else changed or attached; a chunk with a year other than \<open>0\<close> is emitted as a copy
  with \<open>temporalScore\<close> the proximity of the query year and its year, \<open>finalScore\<close> equal to
  \<open>(1 - temporalWeight) * score + temporalWeight * temporalScore\<close> in the arithmetic of the
  number type, whatever it is, and \<open>originalScore\<close> the score before weighting. No bound on
  \<open>temporalWeight\<close> is needed.
\<close>

theorem applyTemporalWeighting_pointwise:
  "length (applyTemporalWeighting nums cs qy w) = length cs \<and>
   (\<forall>i < length cs.
      (year (cs ! i) = None \<or> year (cs ! i) = Some 0 \<longrightarrow>
         applyTemporalWeighting nums cs qy w ! i = (cs ! i)\<lparr>finalScore := Some (score (cs ! i))\<rparr>) \<and>
      (\<forall>y. year (cs ! i) = Some y \<and> y \<noteq> 0 \<longrightarrow>
         applyTemporalWeighting nums cs qy w ! i
           = (cs ! i)\<lparr>temporalScore := Some (calculateTemporalProximity nums qy y),
                       finalScore := Some ((1 - w) * score (cs ! i)
                                            + w * calculateTemporalProximity nums qy y),
                       originalScore := Some (score (cs ! i))\<rparr>))"
  by (auto simp: applyTemporalWeighting_def weight_chunk_def truthy_def Let_def)

theorem applyTemporalWeighting_pointwise_witness:
  "(0::nat) < length [chunk_2025, chunk_undated] \<and> (1::nat) < length [chunk_2025, chunk_undated] \<and>
   year ([chunk_2025, chunk_undated] ! 0) = Some 2025 \<and> (2025::int) \<noteq> 0 \<and>
   year ([chunk_2025, chunk_undated] ! 1) = None \<and>
   applyTemporalWeighting example_numbers [chunk_2025, chunk_undated] 2025 (3 / 10) ! 0
     = chunk_2025\<lparr>temporalScore := Some 1, finalScore := Some (846 / 1000),
                  originalScore := Some (78 / 100)\<rparr> \<and>
   applyTemporalWeighting example_numbers [chunk_2025, chunk_undated] 2025 (3 / 10) ! 1
     = chunk_undated\<lparr>finalScore := Some (78 / 100)\<rparr>"
  using applyTemporalWeighting_pointwise [of example_numbers "[chunk_2025, chunk_undated]" 2025 "3 / 10"]
  by (simp add: ex_defs applyTemporalWeighting_def weight_chunk_def truthy_def
      calculateTemporalProximity_def)

section \<open>The proximity score\<close>

text \<open>
  \<open>calculateTemporalProximity\<close> is \<open>Math.pow(0.8, |queryYear - documentYear|)\<close>, a double
  computed by a built-in whose rounding the language leaves to the engine; the model takes
  it as the parameter \<open>pow_0_8\<close>. Read in exact arithmetic on the reals, as
  \<open>example_numbers\<close> does, the score is 1 for the same year, 0.8, 0.64 and 0.512 at distances
  1, 2 and 3, lies in (0, 1], and does not increase with the distance. Nothing follows from
  this for the doubles.
\<close>

lemma proximity_in_exact_arithmetic:
  "calculateTemporalProximity example_numbers q d = (8 / 10) ^ nat \<bar>q - d\<bar> \<and>
   calculateTemporalProximity example_numbers y y = 1 \<and>
   calculateTemporalProximity example_numbers 2025 2024 = 8 / 10 \<and>
   calculateTemporalProximity example_numbers 2025 2023 = 64 / 100 \<and>
   calculateTemporalProximity example_numbers 2025 2022 = 512 / 1000 \<and>
   0 < calculateTemporalProximity example_numbers q d \<and>
   calculateTemporalProximity example_numbers q d \<le> 1 \<and>
   (\<bar>q - d\<bar> \<le> \<bar>q - d'\<bar> \<longrightarrow>
      calculateTemporalProximity example_numbers q d' \<le> calculateTemporalProximity example_numbers q d)"
proof -
  have e: "calculateTemporalProximity example_numbers a b = (8 / 10) ^ nat \<bar>a - b\<bar>" for a b
    by (simp add: calculateTemporalProximity_def example_numbers_def Let_def)
  have v: "((8 / 10)::real) ^ nat \<bar>2025 - 2024\<bar> = 8 / 10"
    "((8 / 10)::real) ^ nat \<bar>2025 - 2023\<bar> = 64 / 100"
    "((8 / 10)::real) ^ nat \<bar>2025 - 2022\<bar> = 512 / 1000"
    by (simp_all add: power_divide)
  have p: "0 < ((8 / 10)::real) ^ nat \<bar>q - d\<bar>" by simp
  have r: "((8 / 10)::real) ^ nat \<bar>q - d\<bar> \<le> 1"
    by (rule power_le_one) auto
  have m: "\<bar>q - d\<bar> \<le> \<bar>q - d'\<bar> \<longrightarrow> ((8 / 10)::real) ^ nat \<bar>q - d'\<bar> \<le> (8 / 10) ^ nat \<bar>q - d\<bar>"
    by (auto intro!: power_decreasing)
  show ?thesis
    unfolding e using v p r m by simp
qed

section \<open>Claims about the ranking\<close>



section \<open>Claims about extractYearFromQuery\<close>

text \<open>
  Claim C6. For every string, \<open>extractYearFromQuery\<close> returns either no year or one integer
  between 1900 and 2100. The function is total on strings: matching and \<open>parseInt\<close>
  raise nothing, and nothing but "no year" stands for a failure.
\<close>

theorem extractYear_absent_or_in_range:
  "extractYearFromQuery q = None \<or>
   (\<exists>y. extractYearFromQuery q = Some y \<and> 1900 \<le> y \<and> y \<le> 2100)"
  by (cases "extractYearFromQuery q") (auto dest: extractYear_range)

text \<open>
  Claim C7, as stated, fails: the first pattern, \<open>(\d{4})\<close>, has no boundary on either
  side, so it matches the first four digits of a longer run of digits. It matches
  \<open>2500\<close> inside \<open>2500000\<close> and \<open>1950\<close> inside \<open>1950000\<close>, and the query \<open>1950000\<close>
  alone yields the year 1950.
\<close>

theorem bare_pattern_counterexample:
  "first_match digits4 (ascii ''2500000'') = Some (ascii ''2500'') \<and>
   first_match digits4 (ascii ''1950000'') = Some (ascii ''1950'') \<and>
   extractYearFromQuery (ascii ''1950000'') = Some 1950"
  by (simp add: extract_defs)

text \<open>
  Claim C7, amended. For every query, \<open>extractYearFromQuery\<close> returns the first that
  exists of: the value of the four digits at the leftmost position of the query where four
  digits stand, if it is between 1900 and 2100; the same for the four digits after the
  leftmost cue word followed by white space and four digits; the same after the leftmost
  article. So the patterns count in the order of the source, each through its leftmost
  match only. The bare pattern matches the four digits at the leftmost position where four
  digits stand, whatever precedes and follows them, more digits included: at that position
  its match is these four digits; when their value is in range it is the result, and
  otherwise the result is that of the cue and article patterns. A query with four
  consecutive digits nowhere has no match and no year.
\<close>

theorem extractYear_priority:
  "extractYearFromQuery q = year_by_priority q \<and>
   first_match digits4 q
     = (case leftmost four_digits q of None \<Rightarrow> None | Some i \<Rightarrow> Some (take 4 (drop i q))) \<and>
   (four_digits (drop i q) \<and> list_all (\<lambda>j. \<not> four_digits (drop j q)) [0..<i] \<longrightarrow>
      first_match digits4 q = Some (take 4 (drop i q)) \<and>
      (1900 \<le> parseInt (take 4 (drop i q)) \<and> parseInt (take 4 (drop i q)) \<le> 2100 \<longrightarrow>
         extractYearFromQuery q = Some (parseInt (take 4 (drop i q)))) \<and>
      (\<not> (1900 \<le> parseInt (take 4 (drop i q)) \<and> parseInt (take 4 (drop i q)) \<le> 2100) \<longrightarrow>
         extractYearFromQuery q
           = (case cue_year cue_words q of Some y \<Rightarrow> Some y | None \<Rightarrow> cue_year article_words q))) \<and>
   (list_all (\<lambda>j. \<not> four_digits (drop j q)) [0..<length q] \<longrightarrow>
      first_match digits4 q = None \<and> extractYearFromQuery q = None)"
proof -
  have a: "extractYearFromQuery q = year_by_priority q"
    by (rule extractYear_by_priority)
  have b: "first_match digits4 q
     = (case leftmost four_digits q of None \<Rightarrow> None | Some i \<Rightarrow> Some (take 4 (drop i q)))"
  proof (cases "leftmost four_digits q")
    case None
    then show ?thesis by (simp add: first_match_bare_leftmost)
  next
    case (Some k)
    then have "four_digits (drop k q)" unfolding leftmost_def by (auto dest: find_SomeD)
    then show ?thesis
      using Some by (simp add: first_match_bare_leftmost digits4_eq)
  qed
  have c: "first_match digits4 q = Some (take 4 (drop i q)) \<and>
      (1900 \<le> parseInt (take 4 (drop i q)) \<and> parseInt (take 4 (drop i q)) \<le> 2100 \<longrightarrow>
         extractYearFromQuery q = Some (parseInt (take 4 (drop i q)))) \<and>
      (\<not> (1900 \<le> parseInt (take 4 (drop i q)) \<and> parseInt (take 4 (drop i q)) \<le> 2100) \<longrightarrow>
         extractYearFromQuery q
           = (case cue_year cue_words q of Some y \<Rightarrow> Some y | None \<Rightarrow> cue_year article_words q))"
    if "four_digits (drop i q)" "list_all (\<lambda>j. \<not> four_digits (drop j q)) [0..<i]"
  proof -
    have l: "leftmost four_digits q = Some i" using that by (rule leftmost_four_digits)
    show ?thesis
      by (simp add: a b l year_by_priority_def bare_year_def checked_year_def)
  qed
  have d: "first_match digits4 q = None \<and> extractYearFromQuery q = None"
    if h: "list_all (\<lambda>j. \<not> four_digits (drop j q)) [0..<length q]"
  proof -
    have "leftmost four_digits q = None"
      unfolding leftmost_def using h by (auto simp: find_None_iff list_all_iff)
    then show ?thesis
      by (simp add: a b year_by_priority_def bare_year_def cue_needs_four_digits [OF h])
  qed
  from a b c d show ?thesis by blast
qed

theorem extractYear_priority_witness:
  "four_digits (drop 6 (ascii ''3 mai 2024'')) \<and>
   list_all (\<lambda>j. \<not> four_digits (drop j (ascii ''3 mai 2024''))) [0..<6] \<and>
   parseInt (take 4 (drop 6 (ascii ''3 mai 2024''))) = 2024 \<and>
   first_match digits4 (ascii ''3 mai 2024'') = Some (ascii ''2024'') \<and>
   extractYearFromQuery (ascii ''3 mai 2024'') = Some 2024 \<and>
   four_digits (drop 0 (ascii ''1950000'')) \<and>
   parseInt (take 4 (drop 0 (ascii ''1950000''))) = 1950 \<and>
   extractYearFromQuery (ascii ''1950000'') = Some 1950 \<and>
   four_digits (drop 0 (ascii ''1234 en 2025'')) \<and>
   parseInt (take 4 (drop 0 (ascii ''1234 en 2025''))) = 1234 \<and>
   cue_year cue_words (ascii ''1234 en 2025'') = Some 2025 \<and>
   extractYearFromQuery (ascii ''1234 en 2025'') = Some 2025 \<and>
   list_all (\<lambda>j. \<not> four_digits (drop j query_no_year)) [0..<length query_no_year] \<and>
   extractYearFromQuery query_no_year = None"
proof -
  let ?a = "ascii ''3 mai 2024''"
  let ?b = "ascii ''1950000''"
  let ?c = "ascii ''1234 en 2025''"
  have a1: "four_digits (drop 6 ?a)" by code_simp
  have a2: "list_all (\<lambda>j. \<not> four_digits (drop j ?a)) [0..<6]" by code_simp
  have a3: "parseInt (take 4 (drop 6 ?a)) = 2024" by code_simp
  have a4: "take 4 (drop 6 ?a) = ascii ''2024''" by code_simp
  have b1: "four_digits (drop 0 ?b)" by code_simp
  have b2: "list_all (\<lambda>j. \<not> four_digits (drop j ?b)) [0..<0]" by simp
  have b3: "parseInt (take 4 (drop 0 ?b)) = 1950" by code_simp
  have c1: "four_digits (drop 0 ?c)" by code_simp
  have c2: "list_all (\<lambda>j. \<not> four_digits (drop j ?c)) [0..<0]" by simp
  have c3: "parseInt (take 4 (drop 0 ?c)) = 1234" by code_simp
  have c4: "cue_year cue_words ?c = Some 2025"
    by (simp add: cue_year_def leftmost_def starts_with_cue_def cue_digits_def space_run_def
        four_digits_def checked_year_def cue_words_def ascii_def is_digit_def is_space_def
        char_ci_def to_upper_def parseInt_def upt_conv_Cons del: upt_Suc)
  have d1: "list_all (\<lambda>j. \<not> four_digits (drop j query_no_year)) [0..<length query_no_year]"
    by (simp add: query_no_year_def ascii_def four_digits_def is_digit_def upt_conv_Cons
        del: upt_Suc)
  note ta = extractYear_priority [of ?a 6, THEN conjunct2, THEN conjunct2, THEN conjunct1,
      THEN mp, OF conjI [OF a1 a2]]
  note tb = extractYear_priority [of ?b 0, THEN conjunct2, THEN conjunct2, THEN conjunct1,
      THEN mp, OF conjI [OF b1 b2]]
  note tc = extractYear_priority [of ?c 0, THEN conjunct2, THEN conjunct2, THEN conjunct1,
      THEN mp, OF conjI [OF c1 c2]]
  note td = extractYear_priority [of query_no_year 0, THEN conjunct2, THEN conjunct2,
      THEN conjunct2, THEN mp, OF d1]
  have ra: "first_match digits4 ?a = Some (ascii ''2024'')" "extractYearFromQuery ?a = Some 2024"
    using ta a3 a4 by simp_all
  have rb: "extractYearFromQuery ?b = Some 1950"
    using tb b3 by simp
  have rc: "extractYearFromQuery ?c = Some 2025"
    using tc c3 c4 by simp
  have rd: "extractYearFromQuery query_no_year = None"
    using td by simp
  show ?thesis
    by (intro conjI) (rule a1 a2 a3 ra b1 b3 rb c1 c3 c4 rc d1 rd)+
qed

section \<open>Determinism\<close>

text \<open>
  Claim C8. \<open>performHybridSearch\<close> is deterministic: two calls with the same chunk list,
  query and options return the same ranked list and the same metadata. The ranked list
  does not depend on how the engine sorts either: whenever the sign of a difference tells
  which number is larger, every list that holds the sort key in all its elements, descends
  along it and has, for each value of the key, the chunks of the working set with that key in
  their order there, is the list returned.
\<close>

theorem performHybridSearch_deterministic:
  fixes nums :: "'n::{linorder,one,plus,minus,times,zero} numbers"
  shows "(cs1 = cs2 \<and> q1 = q2 \<and> o1 = o2 \<longrightarrow>
            performHybridSearch nums cs1 q1 o1 = performHybridSearch nums cs2 q2 o2) \<and>
         ((\<forall>x y::'n. (0 < x - y) = (y < x)) \<and>
          (\<exists>ks. map (key_of (if temporalWeightingApplied (metadata (performHybridSearch nums cs1 q1 o1))
                              then KeyFinalScore else KeyScore)) r = map Some ks \<and> sorted (rev ks)) \<and>
          (\<forall>v. filter (\<lambda>c. key_of (if temporalWeightingApplied (metadata (performHybridSearch nums cs1 q1 o1))
                                     then KeyFinalScore else KeyScore) c = v) r
                = filter (\<lambda>c. key_of (if temporalWeightingApplied (metadata (performHybridSearch nums cs1 q1 o1))
                                       then KeyFinalScore else KeyScore) c = v)
                    (after_weighting nums cs1 q1 o1))
          \<longrightarrow> r = chunks (performHybridSearch nums cs1 q1 o1))"
proof -
  let ?sk = "if temporalWeightingApplied (metadata (performHybridSearch nums cs1 q1 o1))
             then KeyFinalScore else KeyScore"
  let ?ws = "after_weighting nums cs1 q1 o1"
  let ?res = "chunks (performHybridSearch nums cs1 q1 o1)"
  let ?g = "\<lambda>c. case key_of ?sk c of Some v \<Rightarrow> v | None \<Rightarrow> score c"
  have a: "cs1 = cs2 \<and> q1 = q2 \<and> o1 = o2 \<longrightarrow>
            performHybridSearch nums cs1 q1 o1 = performHybridSearch nums cs2 q2 o2"
    by simp
  have b: "r = ?res"
    if sign: "\<forall>x y::'n. (0 < x - y) = (y < x)"
      and srt: "\<exists>ks. map (key_of ?sk) r = map Some ks \<and> sorted (rev ks)"
      and stb: "\<forall>v. filter (\<lambda>c. key_of ?sk c = v) r = filter (\<lambda>c. key_of ?sk c = v) ?ws"
  proof -
    have sg: "\<And>x y::'n. (0 < x - y) = (y < x)" using sign by blast
    have res: "?res = array_sort (compare_desc ?sk) ?ws"
      by (rule chunks_performHybridSearch)
    have k: "\<And>a. a \<in> set ?ws \<Longrightarrow> key_of ?sk a = Some (?g a)"
      using sg by (rule ranking_key(1))
    have c: "\<And>a b. a \<in> set ?ws \<Longrightarrow> b \<in> set ?ws \<Longrightarrow> goes_after (compare_desc ?sk) a b = (?g a < ?g b)"
      using sg by (rule ranking_key(2))
    have rk: "key_of ?sk a = Some (?g a)" if "a \<in> set r" for a
    proof -
      from srt obtain ks where "map (key_of ?sk) r = map Some ks" by blast
      then have "key_of ?sk a \<in> set (map Some ks)" using that by (metis image_eqI set_map)
      then show ?thesis by auto
    qed
    have sr: "sorted_wrt (\<lambda>a b. ?g b \<le> ?g a) r"
    proof -
      from srt obtain ks where ks: "map (key_of ?sk) r = map Some ks" "sorted (rev ks)" by blast
      have "map (key_of ?sk) r = map Some (map ?g r)" using rk by simp
      with ks(1) have "map Some ks = map Some (map ?g r)" by (simp only:)
      then have "ks = map ?g r" by (rule map_injective) simp
      with ks(2) show ?thesis by (simp add: sorted_wrt_rev sorted_wrt_map flip: rev_map)
    qed
    have ss: "sorted_wrt (\<lambda>a b. ?g b \<le> ?g a) (array_sort (compare_desc ?sk) ?ws)"
      using c by (rule array_sort_sorted)
    have fl: "filter (\<lambda>a. ?g a = w) r = filter (\<lambda>a. ?g a = w) (array_sort (compare_desc ?sk) ?ws)" for w
    proof -
      have "filter (\<lambda>a. ?g a = w) r = filter (\<lambda>a. key_of ?sk a = Some w) r"
        using rk by (intro filter_cong) auto
      also have "\<dots> = filter (\<lambda>a. key_of ?sk a = Some w) ?ws" using stb by blast
      also have "\<dots> = filter (\<lambda>a. ?g a = w) ?ws"
        using k by (intro filter_cong) auto
      also have "\<dots> = filter (\<lambda>a. ?g a = w) (array_sort (compare_desc ?sk) ?ws)"
        using array_sort_stable [of ?ws "compare_desc ?sk" ?g w, OF c] by simp
      finally show ?thesis .
    qed
    have "r = array_sort (compare_desc ?sk) ?ws"
      using sr ss fl by (rule stable_sorted_unique)
    with res show ?thesis by simp
  qed
  from a b show ?thesis by blast
qed

theorem performHybridSearch_deterministic_witness:
  "(\<forall>x y::real. (0 < x - y) = (y < x)) \<and>
   map (key_of KeyScore) [chunk_2020, chunk_2025, chunk_undated]
     = map Some [82 / 100, 78 / 100, 78 / 100] \<and>
   sorted (rev [82 / 100, 78 / 100, 78 / 100 :: real]) \<and>
   (\<forall>v. filter (\<lambda>c. key_of KeyScore c = v) [chunk_2020, chunk_2025, chunk_undated]
        = filter (\<lambda>c. key_of KeyScore c = v) [chunk_2025, chunk_undated, chunk_2020]) \<and>
   after_weighting example_numbers [chunk_2025, chunk_undated, chunk_2020] query_no_year default_options
     = [chunk_2025, chunk_undated, chunk_2020] \<and>
   [chunk_2020, chunk_2025, chunk_undated]
     = chunks (performHybridSearch example_numbers [chunk_2025, chunk_undated, chunk_2020]
                 query_no_year default_options)"
proof -
  let ?cs = "[chunk_2025, chunk_undated, chunk_2020]"
  let ?r = "[chunk_2020, chunk_2025, chunk_undated]"
  have s: "\<forall>x y::real. (0 < x - y) = (y < x)" by auto
  have k: "map (key_of KeyScore) ?r = map Some [82 / 100, 78 / 100, 78 / 100]"
    by (simp add: key_of_def ex_defs)
  have so: "sorted (rev [82 / 100, 78 / 100, 78 / 100 :: real])" by simp
  have st: "\<forall>v. filter (\<lambda>c. key_of KeyScore c = v) ?r = filter (\<lambda>c. key_of KeyScore c = v) ?cs"
    by (auto simp: key_of_def ex_defs)
  have w: "temporalWeightingApplied
             (metadata (performHybridSearch example_numbers ?cs query_no_year default_options)) = False"
    by (simp add: qnone search_defs)
  have ws: "after_weighting example_numbers ?cs query_no_year default_options = ?cs"
    by (simp add: qnone search_defs)
  have e: "?r = chunks (performHybridSearch example_numbers ?cs query_no_year default_options)"
  proof (rule performHybridSearch_deterministic [THEN conjunct2, THEN mp])
    show "(\<forall>x y::real. (0 < x - y) = (y < x)) \<and>
          (\<exists>ks. map (key_of (if temporalWeightingApplied
                                 (metadata (performHybridSearch example_numbers ?cs query_no_year default_options))
                              then KeyFinalScore else KeyScore)) ?r = map Some ks \<and> sorted (rev ks)) \<and>
          (\<forall>v. filter (\<lambda>c. key_of (if temporalWeightingApplied
                                 (metadata (performHybridSearch example_numbers ?cs query_no_year default_options))
                              then KeyFinalScore else KeyScore) c = v) ?r
                = filter (\<lambda>c. key_of (if temporalWeightingApplied
                                 (metadata (performHybridSearch example_numbers ?cs query_no_year default_options))
                              then KeyFinalScore else KeyScore) c = v)
                    (after_weighting example_numbers ?cs query_no_year default_options))"
      unfolding w ws if_False using s k so st by blast
  qed
  show ?thesis
    by (intro conjI) (rule s k so st ws e)+
qed

section \<open>Claim about the records the functions receive\<close>

text \<open>
  Claim C9, as stated, fails in its last part: the core does not produce a new record for
  every chunk it processes. \<open>filterByYear\<close> creates no record: the array it returns holds
  the references 0 and 2 of the records it was given. \<open>performHybridSearch\<close> on a query
  without a year creates no record either and returns the records it was given, reordered
  in a new array.
\<close>

theorem returned_records_counterexample:
  "objects (snd (filterByYear_st 0 2025 2 example_store)) = objects example_store \<and>
   arrays (snd (filterByYear_st 0 2025 2 example_store)) ! fst (filterByYear_st 0 2025 2 example_store)
     = [0, 2] \<and>
   arrays example_store ! 0 = [0, 1, 2] \<and>
   objects (result_store (performHybridSearch_st example_numbers 0 query_no_year default_options example_store))
     = objects example_store \<and>
   arrays (result_store (performHybridSearch_st example_numbers 0 query_no_year default_options example_store))
     ! result_array (performHybridSearch_st example_numbers 0 query_no_year default_options example_store)
     = [1, 0, 2]"
  by (simp add: qnone store_defs search_defs example_store_def ex_defs)

text \<open>
  Claim C9, amended. On the store, for an argument array whose elements are records of the
  store: after \<open>performHybridSearch\<close> every record that was in the store is unchanged, in
  all its fields and so in \<open>text\<close>, \<open>filename\<close> and \<open>page\<close>, and every array that was in the
  store is unchanged, the argument included (the array sorted in place is a new one). The
  array returned holds the ranked list computed on values. Each record in it is some record
  of the argument except at most in \<open>temporalScore\<close>, \<open>finalScore\<close> and \<open>originalScore\<close>,
  with the same \<open>text\<close>, \<open>filename\<close> and \<open>page\<close>. New records (copies) are produced by the
  weighting only: when weighting was applied, every record returned is a new record;
  otherwise the records returned are those received, themselves, untouched.
  \<open>filterByYear\<close> alone creates and changes no record and returns a new array of the
  records it keeps; \<open>applyTemporalWeighting\<close> alone changes no record and returns a new
  array of new records.
\<close>

theorem incoming_chunks_not_mutated:
  fixes nums :: "'n::{one,plus,minus,times,zero,ord} numbers"
  assumes v: "valid_array s a"
  shows
    "take (length (objects s)) (objects (result_store (performHybridSearch_st nums a q opts s)))
       = objects s \<and>
     take (length (arrays s)) (arrays (result_store (performHybridSearch_st nums a q opts s)))
       = arrays s \<and>
     array_values (result_store (performHybridSearch_st nums a q opts s))
         (result_array (performHybridSearch_st nums a q opts s))
       = chunks (performHybridSearch nums (array_values s a) q opts) \<and>
     result_metadata (performHybridSearch_st nums a q opts s)
       = metadata (performHybridSearch nums (array_values s a) q opts) \<and>
     list_all (\<lambda>c'. \<exists>c\<in>set (array_values s a).
                 added_fields_only c c' \<and> text c' = text c \<and> filename c' = filename c \<and> page c' = page c)
       (array_values (result_store (performHybridSearch_st nums a q opts s))
          (result_array (performHybridSearch_st nums a q opts s))) \<and>
     list_all (\<lambda>r. if temporalWeightingApplied (result_metadata (performHybridSearch_st nums a q opts s))
                    then length (objects s) \<le> r else r \<in> set (arrays s ! a))
       (arrays (result_store (performHybridSearch_st nums a q opts s))
          ! result_array (performHybridSearch_st nums a q opts s)) \<and>
     objects (snd (filterByYear_st a y t s)) = objects s \<and>
     take (length (arrays s)) (arrays (snd (filterByYear_st a y t s))) = arrays s \<and>
     array_values (snd (filterByYear_st a y t s)) (fst (filterByYear_st a y t s))
       = filterByYear (array_values s a) y t \<and>
     take (length (objects s)) (objects (snd (applyTemporalWeighting_st nums a y w s))) = objects s \<and>
     take (length (arrays s)) (arrays (snd (applyTemporalWeighting_st nums a y w s))) = arrays s \<and>
     array_values (snd (applyTemporalWeighting_st nums a y w s)) (fst (applyTemporalWeighting_st nums a y w s))
       = applyTemporalWeighting nums (array_values s a) y w \<and>
     list_all (\<lambda>r. length (objects s) \<le> r)
       (arrays (snd (applyTemporalWeighting_st nums a y w s)) ! fst (applyTemporalWeighting_st nums a y w s))"
proof -
  let ?R = "performHybridSearch_st nums a q opts s"
  let ?V = "performHybridSearch nums (array_values s a) q opts"
  let ?sk = "if temporalWeightingApplied (metadata ?V) then KeyFinalScore else KeyScore"
  from store_explicit [OF v, of nums q opts] obtain mid rs2 news where
    R: "?R = (length (arrays s) + length mid, metadata ?V,
              \<lparr>objects = objects s @ news,
               arrays = arrays s @ mid @
                 [array_sort (\<lambda>x y. compare_desc ?sk ((objects s @ news) ! x) ((objects s @ news) ! y)) rs2]\<rparr>)"
    and W: "map (\<lambda>r. (objects s @ news) ! r) rs2 = after_weighting nums (array_values s a) q opts"
    and N: "list_all (\<lambda>r. if temporalWeightingApplied (metadata ?V)
                          then length (objects s) \<le> r \<and> r < length (objects s @ news)
                          else r \<in> set (arrays s ! a)) rs2"
    by blast
  have 1: "take (length (objects s)) (objects (result_store ?R)) = objects s"
    unfolding R by (simp add: result_store_def)
  have 2: "take (length (arrays s)) (arrays (result_store ?R)) = arrays s"
    unfolding R by (simp add: result_store_def)
  have ra: "arrays (result_store ?R) ! result_array ?R
      = array_sort (\<lambda>x y. compare_desc ?sk ((objects s @ news) ! x) ((objects s @ news) ! y)) rs2"
    unfolding R by (simp add: result_store_def result_array_def nth_append)
  have 3: "array_values (result_store ?R) (result_array ?R) = chunks ?V"
  proof -
    have "array_values (result_store ?R) (result_array ?R)
        = map (\<lambda>r. (objects s @ news) ! r) (arrays (result_store ?R) ! result_array ?R)"
      unfolding array_values_def R by (simp add: result_store_def)
    also have "\<dots> = array_sort (compare_desc ?sk) (map (\<lambda>r. (objects s @ news) ! r) rs2)"
      unfolding ra by (rule sorted_values)
    also have "\<dots> = chunks ?V"
      unfolding W by (rule chunks_performHybridSearch [symmetric])
    finally show ?thesis .
  qed
  have 4: "result_metadata ?R = metadata ?V"
    unfolding R by (simp add: result_metadata_def)
  have 5: "list_all (\<lambda>c'. \<exists>c\<in>set (array_values s a).
                 added_fields_only c c' \<and> text c' = text c \<and> filename c' = filename c \<and> page c' = page c)
       (array_values (result_store ?R) (result_array ?R))"
    unfolding 3 list_all_iff
  proof
    fix c' assume "c' \<in> set (chunks ?V)"
    then obtain c where "c \<in> set (array_values s a)" "added_fields_only c c'"
      using ranked_frame by blast
    then show "\<exists>c\<in>set (array_values s a).
                 added_fields_only c c' \<and> text c' = text c \<and> filename c' = filename c \<and> page c' = page c"
      using added_fields_only_same [of c c'] by blast
  qed
  have 6: "list_all (\<lambda>r. if temporalWeightingApplied (result_metadata ?R)
                    then length (objects s) \<le> r else r \<in> set (arrays s ! a))
       (arrays (result_store ?R) ! result_array ?R)"
    unfolding ra 4 using N by (auto simp: list_all_iff set_array_sort)
  note f = filterByYear_st_facts [of a y t s]
  note g = applyTemporalWeighting_st_facts [OF v, of nums y w]
  from 1 2 3 4 5 6 f g show ?thesis by blast
qed


theorem incoming_chunks_not_mutated_witness:
  "valid_array example_store 0 \<and>
   take (length (objects example_store))
     (objects (result_store (performHybridSearch_st example_numbers 0 query_2025 default_options example_store)))
     = objects example_store \<and>
   result_array (performHybridSearch_st example_numbers 0 query_2025 default_options example_store) = 3 \<and>
   arrays (result_store (performHybridSearch_st example_numbers 0 query_2025 default_options example_store))
     = [[0, 1, 2], [0, 1, 2], [0, 2], [3, 4]] \<and>
   objects (result_store (performHybridSearch_st example_numbers 0 query_2025 default_options example_store))
     = [chunk_2025, chunk_2020, chunk_undated,
        chunk_2025\<lparr>temporalScore := Some 1, finalScore := Some (846 / 1000),
                   originalScore := Some (78 / 100)\<rparr>,
        chunk_undated\<lparr>finalScore := Some (78 / 100)\<rparr>] \<and>
   arrays (result_store (performHybridSearch_st example_numbers 0 query_no_year default_options example_store))
     = [[0, 1, 2], [1, 0, 2]]"
proof -
  have v: "valid_array example_store 0"
    by (simp add: valid_array_def example_store_def)
  have m: "take (length (objects example_store))
     (objects (result_store (performHybridSearch_st example_numbers 0 query_2025 default_options example_store)))
     = objects example_store"
    using incoming_chunks_not_mutated [OF v, of example_numbers query_2025 default_options]
    by (rule conjunct1)
  have r: "performHybridSearch_st example_numbers 0 query_2025 default_options example_store
      = (3, \<lparr>queryYear = Some 2025, temporalFilterApplied = True, temporalWeightingApplied = True,
              originalCount = 3, filteredCount = 2\<rparr>,
         \<lparr>objects = [chunk_2025, chunk_2020, chunk_undated,
              chunk_2025\<lparr>temporalScore := Some 1, finalScore := Some (846 / 1000),
                   originalScore := Some (78 / 100)\<rparr>,
              chunk_undated\<lparr>finalScore := Some (78 / 100)\<rparr>],
           arrays = [[0, 1, 2], [0, 1, 2], [0, 2], [3, 4]]\<rparr>)"
    by (simp add: q2025 store_defs search_defs applyTemporalWeighting_st_def new_object_def
        example_store_def ex_defs)
  have n: "arrays (result_store (performHybridSearch_st example_numbers 0 query_no_year default_options example_store))
     = [[0, 1, 2], [1, 0, 2]]"
    by (simp add: qnone store_defs search_defs example_store_def ex_defs)
  show ?thesis
    unfolding r using v m n unfolding r by (simp add: result_store_def result_array_def)
qed

section \<open>The length of the ranked list\<close>

text \<open>
  Claim C10. The ranked list returned by \<open>performHybridSearch\<close> has exactly
  \<open>filteredCount\<close> elements, weighting and sorting keeping the length of the filtered
  working set; when filtering did not run this is \<open>originalCount\<close>.
\<close>

theorem ranked_length:
  "length (chunks (performHybridSearch nums cs q opts))
     = filteredCount (metadata (performHybridSearch nums cs q opts)) \<and>
   (\<not> temporalFilterApplied (metadata (performHybridSearch nums cs q opts)) \<longrightarrow>
      length (chunks (performHybridSearch nums cs q opts))
        = originalCount (metadata (performHybridSearch nums cs q opts)))"
proof -
  have l: "length (chunks (performHybridSearch nums cs q opts)) = length (after_filtering cs q opts)"
    by (simp add: performHybridSearch_def Let_def length_array_sort length_after_weighting)
  have t: "truthy (extractYearFromQuery q) = (extractYearFromQuery q \<noteq> None)"
    by (rule truthy_extractYear)
  have fc: "filteredCount (metadata (performHybridSearch nums cs q opts))
      = length (after_filtering cs q opts)"
    by (auto simp: performHybridSearch_def Let_def t after_filtering_unfiltered)
  have nf: "\<not> temporalFilterApplied (metadata (performHybridSearch nums cs q opts)) \<longrightarrow>
      length (after_filtering cs q opts) = originalCount (metadata (performHybridSearch nums cs q opts))"
    by (auto simp: performHybridSearch_def Let_def t after_filtering_unfiltered)
  from l fc nf show ?thesis by simp
qed

theorem ranked_length_witness:
  "\<not> temporalFilterApplied
       (metadata (performHybridSearch example_numbers [chunk_2025, chunk_2020] query_no_year default_options)) \<and>
   length (chunks (performHybridSearch example_numbers [chunk_2025, chunk_2020] query_no_year default_options)) = 2 \<and>
   originalCount
       (metadata (performHybridSearch example_numbers [chunk_2025, chunk_2020] query_no_year default_options)) = 2 \<and>
   length (chunks (performHybridSearch example_numbers [chunk_2025, chunk_2020] query_2025 default_options)) = 1 \<and>
   filteredCount
       (metadata (performHybridSearch example_numbers [chunk_2025, chunk_2020] query_2025 default_options)) = 1"
  using ranked_length [of example_numbers "[chunk_2025, chunk_2020]" query_no_year default_options]
    ranked_length [of example_numbers "[chunk_2025, chunk_2020]" query_2025 default_options]
  by (simp add: q2025 qnone search_defs ex_defs)

end
